theory Spec2Isabelle
  imports Main "HOL-Library.Word" "HOL-Library.Sublist" "HOL-Library.Log_Nat" "HOL-Library.Multiset"
begin

section \<open>Strings: the library calls made by the parser\<close>

text \<open>
  Go strings are byte sequences; \<open>string\<close> (a list of 8-bit characters) models them byte
  for byte.  The parser of \<^verbatim>\<open>main.go\<close> calls \<^verbatim>\<open>strings.TrimSpace\<close>,
  \<^verbatim>\<open>strings.Split\<close> and \<^verbatim>\<open>strconv.ParseUint\<close>; these are modelled below from
  the documentation of the Go standard library.  \<^verbatim>\<open>strconv.ParseFloat\<close> is taken as
  a parameter of the parser (the loader only stores the coordinates it returns).
\<close>

abbreviation TAB :: char where "TAB \<equiv> CHR 0x09"

text \<open>The six ASCII characters for which \<^verbatim>\<open>unicode.IsSpace\<close> holds.\<close>

definition ascii_space :: "char \<Rightarrow> bool" where
  "ascii_space c \<longleftrightarrow> c \<in> set [CHR 0x09, CHR 0x0A, CHR 0x0B, CHR 0x0C, CHR 0x0D, CHR 0x20]"

text \<open>
  The UTF-8 encodings of the other runes of Unicode's White Space property: U+0085, U+00A0,
  U+1680, U+2000 to U+200A, U+2028, U+2029, U+202F, U+205F and U+3000.
\<close>

definition unicode_spaces :: "string list" where
  "unicode_spaces =
     [[CHR 0xC2, CHR 0x85], [CHR 0xC2, CHR 0xA0], [CHR 0xE1, CHR 0x9A, CHR 0x80],
      [CHR 0xE2, CHR 0x80, CHR 0x80], [CHR 0xE2, CHR 0x80, CHR 0x81],
      [CHR 0xE2, CHR 0x80, CHR 0x82], [CHR 0xE2, CHR 0x80, CHR 0x83],
      [CHR 0xE2, CHR 0x80, CHR 0x84], [CHR 0xE2, CHR 0x80, CHR 0x85],
      [CHR 0xE2, CHR 0x80, CHR 0x86], [CHR 0xE2, CHR 0x80, CHR 0x87],
      [CHR 0xE2, CHR 0x80, CHR 0x88], [CHR 0xE2, CHR 0x80, CHR 0x89],
      [CHR 0xE2, CHR 0x80, CHR 0x8A], [CHR 0xE2, CHR 0x80, CHR 0xA8],
      [CHR 0xE2, CHR 0x80, CHR 0xA9], [CHR 0xE2, CHR 0x80, CHR 0xAF],
      [CHR 0xE2, CHR 0x81, CHR 0x9F], [CHR 0xE3, CHR 0x80, CHR 0x80]]"

text \<open>
  The number of bytes of the white-space rune at the start (at the end) of a string, 0 when
  the string does not start (end) with one.  A byte that starts no valid encoding decodes
  to the error rune, which is not white space.
\<close>

definition space_prefix :: "string \<Rightarrow> nat" where
  "space_prefix s =
     (case s of
        [] \<Rightarrow> 0
      | c # cs \<Rightarrow>
          if ascii_space c then 1
          else (case find (\<lambda>enc. prefix enc s) unicode_spaces of
                  Some enc \<Rightarrow> length enc
                | None \<Rightarrow> 0))"

definition space_suffix :: "string \<Rightarrow> nat" where
  "space_suffix s =
     (if s = [] then 0
      else if ascii_space (last s) then 1
      else (case find (\<lambda>enc. suffix enc s) unicode_spaces of
              Some enc \<Rightarrow> length enc
            | None \<Rightarrow> 0))"

lemma find_holds: "find P xs = Some x \<Longrightarrow> P x"
  by (induction xs) (auto split: if_splits)

lemma space_prefix_le: "space_prefix s \<le> length s"
proof (cases s)
  case Nil
  then show ?thesis by (simp add: space_prefix_def)
next
  case (Cons c cs)
  show ?thesis
  proof (cases "find (\<lambda>enc. prefix enc s) unicode_spaces")
    case None
    with Cons show ?thesis by (simp add: space_prefix_def)
  next
    case (Some enc)
    then have "prefix enc s" by (rule find_holds)
    then have "length enc \<le> length s" by (rule prefix_length_le)
    with Cons Some show ?thesis by (simp add: space_prefix_def)
  qed
qed

lemma space_suffix_le: "space_suffix s \<le> length s"
proof (cases "s = []")
  case True
  then show ?thesis by (simp add: space_suffix_def)
next
  case False
  then have pos: "Suc 0 \<le> length s" by (cases s) auto
  show ?thesis
  proof (cases "find (\<lambda>enc. suffix enc s) unicode_spaces")
    case None
    with False pos show ?thesis by (simp add: space_suffix_def)
  next
    case (Some enc)
    then have "suffix enc s" by (rule find_holds)
    then have "length enc \<le> length s" by (rule suffix_length_le)
    with False Some pos show ?thesis by (simp add: space_suffix_def)
  qed
qed

function trim_left :: "string \<Rightarrow> string" where
  "trim_left s = (if space_prefix s = 0 then s else trim_left (drop (space_prefix s) s))"
  by pat_completeness auto
termination
proof (relation "measure length")
  show "wf (measure length)" by simp
next
  fix s :: string
  assume "space_prefix s \<noteq> 0"
  moreover have "space_prefix s \<le> length s" by (rule space_prefix_le)
  ultimately show "(drop (space_prefix s) s, s) \<in> measure length" by simp
qed

function trim_right :: "string \<Rightarrow> string" where
  "trim_right s =
     (if space_suffix s = 0 then s else trim_right (take (length s - space_suffix s) s))"
  by pat_completeness auto
termination
proof (relation "measure length")
  show "wf (measure length)" by simp
next
  fix s :: string
  assume "space_suffix s \<noteq> 0"
  moreover have "space_suffix s \<le> length s" by (rule space_suffix_le)
  ultimately show "(take (length s - space_suffix s) s, s) \<in> measure length" by simp
qed

declare trim_left.simps [simp del]
declare trim_right.simps [simp del]

text \<open>\<^verbatim>\<open>strings.TrimSpace\<close>: all leading and trailing white space removed.\<close>

definition TrimSpace :: "string \<Rightarrow> string" where
  "TrimSpace s = trim_right (trim_left s)"

text \<open>
  \<^verbatim>\<open>strings.Split(s, sep)\<close> for a separator of one byte: the pieces between the
  separators, one more than there are separators, so the empty string gives one empty piece.
\<close>

fun Split :: "string \<Rightarrow> char \<Rightarrow> string list" where
  "Split [] sep = [[]]"
| "Split (c # cs) sep =
     (if c = sep then [] # Split cs sep
      else (case Split cs sep of
              [] \<Rightarrow> [[c]]
            | p # ps \<Rightarrow> (c # p) # ps))"

text \<open>
  \<^verbatim>\<open>strconv.ParseUint(s, 10, 32)\<close>: a non-empty string of decimal digits (no sign, no
  underscore) whose value is at most \<open>2\<^sup>3\<^sup>2 - 1 = 4294967295\<close>; everything else is an error.
\<close>

definition is_digit :: "char \<Rightarrow> bool" where
  "is_digit c \<longleftrightarrow> 48 \<le> (of_char c :: nat) \<and> (of_char c :: nat) \<le> 57"

definition digit_val :: "char \<Rightarrow> nat" where
  "digit_val c = of_char c - 48"

definition decimal :: "string \<Rightarrow> nat" where
  "decimal s = foldl (\<lambda>n c. 10 * n + digit_val c) 0 s"

definition ParseUint :: "string \<Rightarrow> 32 word option" where
  "ParseUint s =
     (if s = [] \<or> \<not> list_all is_digit s then None
      else if decimal s \<le> 4294967295 then Some (of_nat (decimal s))
      else None)"

section \<open>Records and the parser\<close>

text \<open>
  The struct \<^verbatim>\<open>AppsInstalled\<close>.  The coordinates are whatever
  \<^verbatim>\<open>strconv.ParseFloat\<close> returns; the loader never computes with them, so their
  type is a parameter.
\<close>

record 'f AppsInstalled =
  DevType :: string
  DevID :: string
  Lat :: 'f
  Lon :: 'f
  Apps :: "32 word list"

text \<open>The struct \<^verbatim>\<open>MemcClient\<close>: the connection is opaque, the address names it.\<close>

record MemcClient =
  addr :: string

text \<open>
  The errors \<^verbatim>\<open>parseAppsInstalled\<close> returns, in the order of its checks: too few
  fields (line 63), empty device type or device id (line 73), latitude or longitude that
  does not parse (lines 78 and 83).
\<close>

datatype coordinate = Latitude | Longitude

datatype parse_error = MalformedLine | MissingIdentity | InvalidCoordinate coordinate

text \<open>The errors \<^verbatim>\<open>insertAppsInstalled\<close> returns (lines 122 and 136).\<close>

datatype insert_error = SerializationError | BackendWriteError string

text \<open>A file is named by its directory and its base name.\<close>

record filepath =
  dir :: string
  base :: string

text \<open>The lines the program writes to its log, one constructor for each call.\<close>

datatype 'f log_entry =
    LogStarted string bool
  | LogStatError filepath
  | LogProcessingFile filepath
  | LogOpenError filepath
  | LogGzipError filepath
  | LogNotAllNumeric string
  | LogUnknownDevice string
  | LogDryRun string string 'f 'f "32 word list"
  | LogInsertError insert_error
  | LogReadError filepath
  | LogAcceptable rat
  | LogHighErrorRate rat
  | LogFinished

text \<open>
  The loop over the application ids (lines 88 to 100): a token is trimmed; an empty one is
  passed over, one that is not a number is logged and passed over, the others are appended
  in order.
\<close>

fun parse_apps :: "string \<Rightarrow> string list \<Rightarrow> 'f log_entry list \<times> 32 word list" where
  "parse_apps line [] = ([], [])"
| "parse_apps line (t # ts) =
     (let appStr = TrimSpace t; (lg, apps) = parse_apps line ts
      in if appStr = [] then (lg, apps)
         else (case ParseUint appStr of
                 None \<Rightarrow> (LogNotAllNumeric line # lg, apps)
               | Some app \<Rightarrow> (lg, app # apps)))"

text \<open>
  \<^verbatim>\<open>parseAppsInstalled\<close> (lines 60 to 109).  The result is the log it wrote and either
  an error or the record.
\<close>

definition parseAppsInstalled ::
  "(string \<Rightarrow> 'f option) \<Rightarrow> string \<Rightarrow> 'f log_entry list \<times> (parse_error + 'f AppsInstalled)" where
  "parseAppsInstalled ParseFloat line =
     (let parts = Split (TrimSpace line) TAB
      in if length parts < 5 then ([], Inl MalformedLine)
         else
           let devType = parts ! 0; devID = parts ! 1; latStr = parts ! 2;
               lonStr = parts ! 3; rawApps = parts ! 4
           in if devType = [] \<or> devID = [] then ([], Inl MissingIdentity)
              else (case ParseFloat latStr of
                      None \<Rightarrow> ([], Inl (InvalidCoordinate Latitude))
                    | Some lat \<Rightarrow>
                        (case ParseFloat lonStr of
                           None \<Rightarrow> ([], Inl (InvalidCoordinate Longitude))
                         | Some lon \<Rightarrow>
                             (let (lg, apps) = parse_apps line (Split rawApps CHR '','')
                              in (lg, Inr \<lparr>DevType = devType, DevID = devID, Lat = lat,
                                           Lon = lon, Apps = apps\<rparr>)))))"

section \<open>The error rate\<close>

text \<open>
  The rate is computed in \<^verbatim>\<open>float64\<close> (line 228) and compared with the constant
  \<^verbatim>\<open>normalErrRate = 0.01\<close> (line 229).  A finite \<^verbatim>\<open>float64\<close> is modelled by
  the rational number it stands for, and every operation rounds its exact result to the
  nearest \<^verbatim>\<open>float64\<close>, ties to the even significand (IEEE 754).  The counters are
  never negative and the divisor is at least 1 where the division is made, so only
  non-negative values of the normal range arise: neither infinities, NaN nor subnormal
  numbers.
\<close>

definition round_half_even :: "rat \<Rightarrow> int" where
  "round_half_even x =
     (let f = \<lfloor>x\<rfloor>; d = x - of_int f
      in if d < 1 / 2 then f
         else if 1 / 2 < d then f + 1
         else if even f then f else f + 1)"

text \<open>The binary exponent of a positive rational: \<open>2 powi ilog2 x \<le> x < 2 powi (ilog2 x + 1)\<close>.\<close>

definition ilog2 :: "rat \<Rightarrow> int" where
  "ilog2 x =
     (let k = bitlen (fst (quotient_of x)) - bitlen (snd (quotient_of x))
      in if 2 powi k \<le> x then k else k - 1)"

text \<open>Rounding to 53 significant bits.\<close>

definition float64 :: "rat \<Rightarrow> rat" where
  "float64 x =
     (if x \<le> 0 then 0
      else of_int (round_half_even (x / 2 powi (ilog2 x - 52))) * 2 powi (ilog2 x - 52))"

text \<open>The constant of line 21, as the comparison of line 229 reads it.\<close>

definition normalErrRate :: rat where
  "normalErrRate = float64 (1 / 100)"

text \<open>Line 228: \<^verbatim>\<open>errRate := float64(errors) / float64(processed)\<close>.\<close>

definition errRate :: "nat \<Rightarrow> nat \<Rightarrow> rat" where
  "errRate errs procd = float64 (float64 (of_nat errs) / float64 (of_nat procd))"

text \<open>Lines 229 to 233: the line logged for the rate.\<close>

definition rate_log :: "nat \<Rightarrow> nat \<Rightarrow> 'f log_entry" where
  "rate_log errs procd =
     (if errRate errs procd < normalErrRate then LogAcceptable (errRate errs procd)
      else LogHighErrorRate (errRate errs procd))"

section \<open>The file system and \<^verbatim>\<open>dotRename\<close>\<close>

text \<open>
  The environment of the program.  A file has a modification time and a content: the
  content cannot be opened, or is no gzip stream, or is a gzip stream of which the scanner
  delivers the given lines and then reports an error (a damaged stream, a line that is too
  long) or none.  A file that is \<open>locked\<close> cannot be renamed (the directory is
  read-only).  \<^verbatim>\<open>os.Rename\<close> also fails when the file does not exist.
\<close>

datatype content = Unreadable | NotGzip | Gzip "string list" bool

record osfile =
  mtime :: int
  locked :: bool
  content :: content

type_synonym filesystem = "filepath \<rightharpoonup> osfile"

datatype os_error = RenameError

definition os_Rename :: "filesystem \<Rightarrow> filepath \<Rightarrow> filepath \<Rightarrow> os_error + filesystem" where
  "os_Rename fs old new =
     (case fs old of
        None \<Rightarrow> Inl RenameError
      | Some f \<Rightarrow> if locked f then Inl RenameError else Inr ((fs(old := None))(new \<mapsto> f)))"

text \<open>Lines 52 to 57: the base name gets a leading dot, the directory stays.\<close>

definition dotRename :: "filesystem \<Rightarrow> filepath \<Rightarrow> os_error + filesystem" where
  "dotRename fs p = os_Rename fs p (p\<lparr>base := CHR ''.'' # base p\<rparr>)"

section \<open>The files of \<^verbatim>\<open>main\<close>: modification times and the sort\<close>

record fileInfo =
  path :: filepath
  modTime :: int

text \<open>
  Lines 343 to 350: the files found by \<^verbatim>\<open>filepath.Glob\<close>, each with its modification
  time; a file whose \<^verbatim>\<open>os.Stat\<close> fails is logged and left out.
\<close>

fun stat_files :: "filesystem \<Rightarrow> filepath list \<Rightarrow> 'f log_entry list \<times> fileInfo list" where
  "stat_files fs [] = ([], [])"
| "stat_files fs (f # rest) =
     (let (lg, infos) = stat_files fs rest
      in case fs f of
           None \<Rightarrow> (LogStatError f # lg, infos)
         | Some fl \<Rightarrow> (lg, \<lparr>path = f, modTime = mtime fl\<rparr> # infos))"

text \<open>
  Lines 353 to 359: the two nested loops.  The inner loop runs \<open>j\<close> from its start to the
  end of the slice and exchanges the elements at \<open>i\<close> and \<open>j\<close> when the first is the later
  one; the outer loop calls it with \<open>j = i + 1\<close>, so both indices are within the slice.
\<close>

function sort_inner :: "nat \<Rightarrow> nat \<Rightarrow> fileInfo list \<Rightarrow> fileInfo list" where
  "sort_inner i j xs =
     (if j < length xs
      then sort_inner i (j + 1)
             (if modTime (xs ! j) < modTime (xs ! i) then xs[i := xs ! j, j := xs ! i] else xs)
      else xs)"
  by pat_completeness auto
termination
  by (relation "measure (\<lambda>(i, j, xs). length xs - j)") auto

declare sort_inner.simps [simp del]

lemma length_sort_inner: "length (sort_inner i j xs) = length xs"
proof (induction i j xs rule: sort_inner.induct)
  case (1 i j xs)
  show ?case
  proof (cases "j < length xs")
    case True
    with "1" show ?thesis by (subst sort_inner.simps) simp
  next
    case False
    then show ?thesis by (subst sort_inner.simps) simp
  qed
qed

function sort_outer :: "nat \<Rightarrow> fileInfo list \<Rightarrow> fileInfo list" where
  "sort_outer i xs =
     (if i < length xs then sort_outer (i + 1) (sort_inner i (i + 1) xs) else xs)"
  by pat_completeness auto
termination
  by (relation "measure (\<lambda>(i, xs). length xs - i)") (auto simp: length_sort_inner)

declare sort_outer.simps [simp del]

section \<open>Writing one record: \<^verbatim>\<open>insertAppsInstalled\<close>\<close>

text \<open>
  The message \<^verbatim>\<open>UserApps\<close> of the generated protobuf code, with the fields that
  \<^verbatim>\<open>main.go\<close> sets.
\<close>

record 'f UserApps =
  ua_Lat :: 'f
  ua_Lon :: 'f
  ua_Apps :: "32 word list"

text \<open>
  Lines 112 to 140.  \<^verbatim>\<open>proto.Marshal\<close> is a parameter; \<open>set_ok\<close> tells whether
  the memcached server accepts the one \<^verbatim>\<open>Set\<close> (it is read only where the call is
  made).  The result is the log written and the error returned.
\<close>

definition insertAppsInstalled ::
  "('f UserApps \<Rightarrow> string option) \<Rightarrow> bool \<Rightarrow> MemcClient \<Rightarrow> 'f AppsInstalled \<Rightarrow> bool
     \<Rightarrow> 'f log_entry list \<times> insert_error option" where
  "insertAppsInstalled Marshal set_ok client appsInstalled dry =
     (let ua = \<lparr>ua_Lat = Lat appsInstalled, ua_Lon = Lon appsInstalled,
                ua_Apps = Apps appsInstalled\<rparr>;
          key = DevType appsInstalled @ '':'' @ DevID appsInstalled
      in case Marshal ua of
           None \<Rightarrow> ([], Some SerializationError)
         | Some packed \<Rightarrow>
             if dry
             then ([LogDryRun (addr client) key (Lat appsInstalled) (Lon appsInstalled)
                      (Apps appsInstalled)], None)
             else if set_ok then ([], None)
             else ([], Some (BackendWriteError (addr client))))"

section \<open>The goroutines of \<^verbatim>\<open>main\<close> and \<^verbatim>\<open>processFile\<close>\<close>

text \<open>
  The program runs the main goroutine (the loop of \<^verbatim>\<open>main\<close> over the files, calling
  \<^verbatim>\<open>processFile\<close>), for each file one goroutine that counts the results (lines 168
  to 176), and for each dispatched record one goroutine that writes it (lines 200 to 209).
  They are modelled as an interleaving of atomic steps: each step is one access to a
  variable, a channel, the wait group, the log or the file system that the goroutines
  share.  A step that would block is not enabled.  An increment \<^verbatim>\<open>x++\<close> of a shared
  variable is a load followed by a store.  \<^verbatim>\<open>time.Sleep\<close> is a step that is always
  enabled: the time that passes orders nothing between the goroutines.

  What the libraries and the configuration give: \<^verbatim>\<open>strconv.ParseFloat\<close>,
  \<^verbatim>\<open>proto.Marshal\<close>, the map \<^verbatim>\<open>deviceMemc\<close> and the flag \<^verbatim>\<open>dry\<close>.
\<close>

record 'f env =
  ParseFloat :: "string \<Rightarrow> 'f option"
  Marshal :: "'f UserApps \<Rightarrow> string option"
  deviceMemc :: "string \<rightharpoonup> MemcClient"
  dry :: bool

text \<open>The configuration (lines 34 to 43) and the map built from it (lines 316 to 321).\<close>

record Config =
  Pattern :: string
  Idfa :: string
  Gaid :: string
  Adid :: string
  Dvid :: string
  Dry :: bool

definition main_deviceMemc :: "Config \<Rightarrow> string \<rightharpoonup> MemcClient" where
  "main_deviceMemc config =
     [''idfa'' \<mapsto> \<lparr>addr = Idfa config\<rparr>, ''gaid'' \<mapsto> \<lparr>addr = Gaid config\<rparr>,
      ''adid'' \<mapsto> \<lparr>addr = Adid config\<rparr>, ''dvid'' \<mapsto> \<lparr>addr = Dvid config\<rparr>]"

text \<open>Which of the two \<^verbatim>\<open>errors++\<close> of the scanning loop is being executed.\<close>

datatype err_site = ParseFailed | UnknownDevice string

text \<open>The program counter of the main goroutine; the comments give the source lines.\<close>

datatype 'f main_pc =
    M_Loop                                 \<comment> \<open>365: the loop over the files\<close>
  | M_Open                                 \<comment> \<open>144 to 176: entry of \<^verbatim>\<open>processFile\<close>\<close>
  | M_Scan                                 \<comment> \<open>178 to 195: next line, parse, route\<close>
  | M_ErrLoad err_site                     \<comment> \<open>186, 192: \<^verbatim>\<open>errors++\<close>, the load\<close>
  | M_ErrStore err_site nat                \<comment> \<open>186, 192: \<^verbatim>\<open>errors++\<close>, the store\<close>
  | M_LogUnknown string                    \<comment> \<open>193\<close>
  | M_Add MemcClient "'f AppsInstalled"    \<comment> \<open>197: \<^verbatim>\<open>wg.Add(1)\<close>\<close>
  | M_Acquire MemcClient "'f AppsInstalled" \<comment> \<open>199: send to the semaphore\<close>
  | M_Go MemcClient "'f AppsInstalled"     \<comment> \<open>200: the go statement\<close>
  | M_Wait                                 \<comment> \<open>213: \<^verbatim>\<open>wg.Wait()\<close>\<close>
  | M_Close                                \<comment> \<open>214: \<^verbatim>\<open>close(resultChan)\<close>\<close>
  | M_Sleep                                \<comment> \<open>217: \<^verbatim>\<open>time.Sleep\<close>\<close>
  | M_ScanErr                              \<comment> \<open>219 to 221\<close>
  | M_CheckZero                            \<comment> \<open>223: \<^verbatim>\<open>processed == 0\<close>\<close>
  | M_RateLoadErrors                       \<comment> \<open>228: \<^verbatim>\<open>errors\<close> is read\<close>
  | M_RateLoadProcessed nat                \<comment> \<open>228: \<^verbatim>\<open>processed\<close> is read\<close>
  | M_LogRate nat nat                      \<comment> \<open>228 to 233\<close>
  | M_Rename                               \<comment> \<open>224 and 235: \<^verbatim>\<open>dotRename(filename)\<close>\<close>
  | M_Finished                             \<comment> \<open>369\<close>

text \<open>A writing goroutine (lines 200 to 209); the deferred calls run last, in reverse order.\<close>

datatype worker_pc =
    W_Insert                               \<comment> \<open>204\<close>
  | W_Send "insert_error option"           \<comment> \<open>205: \<^verbatim>\<open>resultChan <- (err == nil)\<close>\<close>
  | W_LogErr "insert_error option"         \<comment> \<open>206 to 208\<close>
  | W_Release                              \<comment> \<open>202: receive from the semaphore\<close>
  | W_Done                                 \<comment> \<open>201: \<^verbatim>\<open>wg.Done()\<close>\<close>
  | W_Exit

record 'f worker =
  wpc :: worker_pc
  wclient :: MemcClient
  wapps :: "'f AppsInstalled"

text \<open>The counting goroutine (lines 168 to 176).\<close>

datatype counter_pc =
    C_Recv                                 \<comment> \<open>169: receive, or leave when closed and empty\<close>
  | C_LoadProcessed                        \<comment> \<open>171\<close>
  | C_StoreProcessed nat
  | C_LoadErrors                           \<comment> \<open>173\<close>
  | C_StoreErrors nat
  | C_Exit

text \<open>
  The state.  \<open>files\<close> are the files the loop of line 365 has still to take;
  \<open>filename\<close>, \<open>scanner\<close>, \<open>scanner_err\<close>, \<open>processed\<close>, \<open>errors\<close>,
  \<open>resultChan\<close> (the buffer of the channel), \<open>closed\<close>, \<open>wg\<close> and \<open>cpc\<close> belong to
  the running call of \<^verbatim>\<open>processFile\<close>; \<open>semaphore\<close> is the number of elements in
  the channel made at line 362, \<open>semaphore_cap\<close> its capacity.  The workers are kept in
  the order they were started; one that has returned stays in the list with \<open>W_Exit\<close>.
\<close>

record 'f state =
  mpc :: "'f main_pc"
  files :: "filepath list"
  filename :: filepath
  scanner :: "string list"
  scanner_err :: bool
  processed :: nat
  errors :: nat
  resultChan :: "bool list"
  closed :: bool
  wg :: nat
  semaphore :: nat
  semaphore_cap :: nat
  cpc :: counter_pc
  workers :: "'f worker list"
  fs :: filesystem
  logs :: "'f log_entry list"

text \<open>
  One step of the main goroutine.  At \<open>M_Open\<close> the call of \<^verbatim>\<open>processFile\<close> makes
  its own counters, wait group, channel and counting goroutine; the counting goroutine of
  the file before, if it still runs, works on variables nobody reads any more and is
  dropped.  The value \<^verbatim>\<open>dotRename\<close> returns is discarded at both calls.
\<close>

definition main_step :: "'f env \<Rightarrow> 'f state \<Rightarrow> 'f state option" where
  "main_step env s =
     (case mpc s of
        M_Loop \<Rightarrow>
          (case files s of
             [] \<Rightarrow> Some (s\<lparr>mpc := M_Finished, logs := logs s @ [LogFinished]\<rparr>)
           | f # rest \<Rightarrow> Some (s\<lparr>mpc := M_Open, files := rest, filename := f\<rparr>))
      | M_Open \<Rightarrow>
          (case (case fs s (filename s) of None \<Rightarrow> Unreadable | Some fl \<Rightarrow> content fl) of
             Unreadable \<Rightarrow>
               Some (s\<lparr>mpc := M_Loop,
                       logs := logs s @ [LogProcessingFile (filename s), LogOpenError (filename s)]\<rparr>)
           | NotGzip \<Rightarrow>
               Some (s\<lparr>mpc := M_Loop,
                       logs := logs s @ [LogProcessingFile (filename s), LogGzipError (filename s)]\<rparr>)
           | Gzip lns err \<Rightarrow>
               Some (s\<lparr>mpc := M_Scan, scanner := lns, scanner_err := err, processed := 0,
                       errors := 0, resultChan := [], closed := False, wg := 0, cpc := C_Recv,
                       logs := logs s @ [LogProcessingFile (filename s)]\<rparr>))
      | M_Scan \<Rightarrow>
          (case scanner s of
             [] \<Rightarrow> Some (s\<lparr>mpc := M_Wait\<rparr>)
           | l # rest \<Rightarrow>
               if TrimSpace l = [] then Some (s\<lparr>scanner := rest\<rparr>)
               else (case parseAppsInstalled (ParseFloat env) (TrimSpace l) of
                       (lg, Inl e) \<Rightarrow>
                         Some (s\<lparr>mpc := M_ErrLoad ParseFailed, scanner := rest,
                                 logs := logs s @ lg\<rparr>)
                     | (lg, Inr appsInstalled) \<Rightarrow>
                         (case deviceMemc env (DevType appsInstalled) of
                            None \<Rightarrow>
                              Some (s\<lparr>mpc := M_ErrLoad (UnknownDevice (DevType appsInstalled)),
                                      scanner := rest, logs := logs s @ lg\<rparr>)
                          | Some memcClient \<Rightarrow>
                              Some (s\<lparr>mpc := M_Add memcClient appsInstalled, scanner := rest,
                                      logs := logs s @ lg\<rparr>))))
      | M_ErrLoad site \<Rightarrow> Some (s\<lparr>mpc := M_ErrStore site (errors s)\<rparr>)
      | M_ErrStore site v \<Rightarrow>
          Some (s\<lparr>mpc := (case site of ParseFailed \<Rightarrow> M_Scan | UnknownDevice d \<Rightarrow> M_LogUnknown d),
                  errors := v + 1\<rparr>)
      | M_LogUnknown d \<Rightarrow> Some (s\<lparr>mpc := M_Scan, logs := logs s @ [LogUnknownDevice d]\<rparr>)
      | M_Add c a \<Rightarrow> Some (s\<lparr>mpc := M_Acquire c a, wg := wg s + 1\<rparr>)
      | M_Acquire c a \<Rightarrow>
          if semaphore s < semaphore_cap s
          then Some (s\<lparr>mpc := M_Go c a, semaphore := semaphore s + 1\<rparr>)
          else None
      | M_Go c a \<Rightarrow>
          Some (s\<lparr>mpc := M_Scan,
                  workers := workers s @ [\<lparr>wpc = W_Insert, wclient = c, wapps = a\<rparr>]\<rparr>)
      | M_Wait \<Rightarrow> if wg s = 0 then Some (s\<lparr>mpc := M_Close\<rparr>) else None
      | M_Close \<Rightarrow> Some (s\<lparr>mpc := M_Sleep, closed := True\<rparr>)
      | M_Sleep \<Rightarrow> Some (s\<lparr>mpc := M_ScanErr\<rparr>)
      | M_ScanErr \<Rightarrow>
          Some (s\<lparr>mpc := M_CheckZero,
                  logs := logs s @ (if scanner_err s then [LogReadError (filename s)] else [])\<rparr>)
      | M_CheckZero \<Rightarrow>
          Some (s\<lparr>mpc := (if processed s = 0 then M_Rename else M_RateLoadErrors)\<rparr>)
      | M_RateLoadErrors \<Rightarrow> Some (s\<lparr>mpc := M_RateLoadProcessed (errors s)\<rparr>)
      | M_RateLoadProcessed e \<Rightarrow> Some (s\<lparr>mpc := M_LogRate e (processed s)\<rparr>)
      | M_LogRate e p \<Rightarrow> Some (s\<lparr>mpc := M_Rename, logs := logs s @ [rate_log e p]\<rparr>)
      | M_Rename \<Rightarrow>
          Some (s\<lparr>mpc := M_Loop,
                  fs := (case dotRename (fs s) (filename s) of
                           Inl err \<Rightarrow> fs s
                         | Inr fs' \<Rightarrow> fs')\<rparr>)
      | M_Finished \<Rightarrow> None)"

text \<open>
  One step of worker \<open>i\<close>.  The channel of the results has a buffer of 1000 (line 165); a
  send to it waits while the buffer is full.  A send to a closed channel, and
  \<^verbatim>\<open>wg.Done()\<close> on a counter that is 0, would panic: these steps are not enabled.
\<close>

definition worker_step :: "'f env \<Rightarrow> nat \<Rightarrow> bool \<Rightarrow> 'f state \<Rightarrow> 'f state option" where
  "worker_step env i set_ok s =
     (if length (workers s) \<le> i then None
      else
        let w = workers s ! i
        in case wpc w of
             W_Insert \<Rightarrow>
               (case insertAppsInstalled (Marshal env) set_ok (wclient w) (wapps w) (dry env) of
                  (lg, err) \<Rightarrow>
                    Some (s\<lparr>workers := (workers s)[i := w\<lparr>wpc := W_Send err\<rparr>],
                            logs := logs s @ lg\<rparr>))
           | W_Send err \<Rightarrow>
               if \<not> closed s \<and> length (resultChan s) < 1000
               then Some (s\<lparr>workers := (workers s)[i := w\<lparr>wpc := W_LogErr err\<rparr>],
                            resultChan := resultChan s @ [err = None]\<rparr>)
               else None
           | W_LogErr err \<Rightarrow>
               Some (s\<lparr>workers := (workers s)[i := w\<lparr>wpc := W_Release\<rparr>],
                       logs := logs s @ (case err of None \<Rightarrow> [] | Some e \<Rightarrow> [LogInsertError e])\<rparr>)
           | W_Release \<Rightarrow>
               if 0 < semaphore s
               then Some (s\<lparr>workers := (workers s)[i := w\<lparr>wpc := W_Done\<rparr>],
                            semaphore := semaphore s - 1\<rparr>)
               else None
           | W_Done \<Rightarrow>
               if 0 < wg s
               then Some (s\<lparr>workers := (workers s)[i := w\<lparr>wpc := W_Exit\<rparr>], wg := wg s - 1\<rparr>)
               else None
           | W_Exit \<Rightarrow> None)"

text \<open>One step of the counting goroutine.\<close>

definition counter_step :: "'f state \<Rightarrow> 'f state option" where
  "counter_step s =
     (case cpc s of
        C_Recv \<Rightarrow>
          (case resultChan s of
             ok # rest \<Rightarrow>
               Some (s\<lparr>cpc := (if ok then C_LoadProcessed else C_LoadErrors), resultChan := rest\<rparr>)
           | [] \<Rightarrow> if closed s then Some (s\<lparr>cpc := C_Exit\<rparr>) else None)
      | C_LoadProcessed \<Rightarrow> Some (s\<lparr>cpc := C_StoreProcessed (processed s)\<rparr>)
      | C_StoreProcessed v \<Rightarrow> Some (s\<lparr>cpc := C_Recv, processed := v + 1\<rparr>)
      | C_LoadErrors \<Rightarrow> Some (s\<lparr>cpc := C_StoreErrors (errors s)\<rparr>)
      | C_StoreErrors v \<Rightarrow> Some (s\<lparr>cpc := C_Recv, errors := v + 1\<rparr>)
      | C_Exit \<Rightarrow> None)"

text \<open>
  A schedule names, step by step, the goroutine that moves; for a worker it also says
  whether the server accepts the write, should the step make one.
\<close>

datatype label = Main | Counter | Worker nat bool

fun step :: "'f env \<Rightarrow> label \<Rightarrow> 'f state \<Rightarrow> 'f state option" where
  "step env Main s = main_step env s"
| "step env Counter s = counter_step s"
| "step env (Worker i set_ok) s = worker_step env i set_ok s"

fun run :: "'f env \<Rightarrow> label list \<Rightarrow> 'f state \<Rightarrow> 'f state option" where
  "run env [] s = Some s"
| "run env (l # ls) s = (case step env l s of None \<Rightarrow> None | Some s' \<Rightarrow> run env ls s')"

text \<open>
  The state in which \<^verbatim>\<open>main\<close> enters its loop over the files (line 365): the log holds
  the start message and the files that could not be examined, the files are sorted, the
  semaphore has been made with room for 100 (line 362); no file is open yet.
\<close>

definition main_start :: "Config \<Rightarrow> filesystem \<Rightarrow> filepath list \<Rightarrow> 'f state" where
  "main_start config fs0 globbed =
     \<lparr>mpc = M_Loop,
      files = map path (sort_outer 0 (snd (stat_files fs0 globbed :: 'f log_entry list \<times> fileInfo list))),
      filename = \<lparr>dir = [], base = []\<rparr>, scanner = [], scanner_err = False,
      processed = 0, errors = 0, resultChan = [], closed = False, wg = 0,
      semaphore = 0, semaphore_cap = 100, cpc = C_Exit, workers = [], fs = fs0,
      logs = LogStarted (Pattern config) (Dry config) # fst (stat_files fs0 globbed)\<rparr>"

text \<open>The writers that hold a slot of the semaphore: started, and not yet past line 202.\<close>

fun holds_slot :: "worker_pc \<Rightarrow> bool" where
  "holds_slot W_Done = False"
| "holds_slot W_Exit = False"
| "holds_slot _ = True"

definition in_flight :: "'f state \<Rightarrow> nat" where
  "in_flight s = length (filter (\<lambda>w. holds_slot (wpc w)) (workers s))"

text \<open>
  A stand-in for \<^verbatim>\<open>strconv.ParseFloat\<close> in concrete runs: it accepts the unsigned
  decimals \<open>digits\<close> and \<open>digits.digits\<close> and returns their value.
\<close>

definition decimal_ParseFloat :: "string \<Rightarrow> rat option" where
  "decimal_ParseFloat s =
     (case Split s CHR ''.'' of
        [n] \<Rightarrow> if n \<noteq> [] \<and> list_all is_digit n then Some (of_nat (decimal n)) else None
      | [n, f] \<Rightarrow>
          if n \<noteq> [] \<and> f \<noteq> [] \<and> list_all is_digit n \<and> list_all is_digit f
          then Some (of_nat (decimal n) + of_nat (decimal f) / 10 ^ length f)
          else None
      | _ \<Rightarrow> None)"

lemma Split_nonempty: "Split s sep \<noteq> []"
  by (induction s) (auto split: list.splits)

text \<open>
  The semaphore counts the writers that hold a slot, and one more while the main goroutine
  is between its send to the semaphore (line 199) and the go statement (line 200); it never
  holds more than its capacity.
\<close>

definition slots_inv :: "'f state \<Rightarrow> bool" where
  "slots_inv s \<longleftrightarrow>
     semaphore s = in_flight s + (case mpc s of M_Go c a \<Rightarrow> 1 | _ \<Rightarrow> 0) \<and>
     semaphore s \<le> semaphore_cap s"

section \<open>Concrete inputs\<close>

text \<open>
  The configuration that the flags give by default (lines 290 to 294), an environment in
  which every record can be serialized, and a directory with one file of one valid line.
\<close>

definition default_config :: Config where
  "default_config =
     \<lparr>Pattern = ''/data/appsinstalled/*.tsv.gz'', Idfa = ''127.0.0.1:33013'',
      Gaid = ''127.0.0.1:33014'', Adid = ''127.0.0.1:33015'', Dvid = ''127.0.0.1:33016'',
      Dry = False\<rparr>"

definition example_env :: "rat env" where
  "example_env =
     \<lparr>ParseFloat = decimal_ParseFloat, Marshal = (\<lambda>ua. Some []),
      deviceMemc = main_deviceMemc default_config, dry = Dry default_config\<rparr>"

definition file_a :: filepath where
  "file_a = \<lparr>dir = ''/data/appsinstalled'', base = ''a.tsv.gz''\<rparr>"

definition good_line :: string where
  "good_line = ''idfa'' @ TAB # ''ID1'' @ TAB # ''55.55'' @ TAB # ''42.42'' @ TAB # ''1,2,3''"

definition one_line_fs :: filesystem where
  "one_line_fs = [file_a \<mapsto> \<lparr>mtime = 1, locked = False, content = Gzip [good_line] False\<rparr>]"

text \<open>
  A line that is no record, a file that holds a valid line and then that one, a second file,
  a directory whose first file cannot be renamed, and a state of the scanning loop whose
  next line is blank.
\<close>

definition bad_line :: string where
  "bad_line = ''not a record''"

definition two_line_fs :: filesystem where
  "two_line_fs =
     [file_a \<mapsto> \<lparr>mtime = 1, locked = False, content = Gzip [good_line, bad_line] False\<rparr>]"

definition file_b :: filepath where
  "file_b = \<lparr>dir = ''/data/appsinstalled'', base = ''b.tsv.gz''\<rparr>"

definition locked_fs :: filesystem where
  "locked_fs =
     [file_a \<mapsto> \<lparr>mtime = 1, locked = True, content = Gzip [good_line] False\<rparr>,
      file_b \<mapsto> \<lparr>mtime = 2, locked = False, content = Gzip [] False\<rparr>]"

definition scanning_state :: "rat state" where
  "scanning_state =
     (main_start default_config one_line_fs [])
       \<lparr>mpc := M_Scan, filename := file_a, scanner := [[CHR 0x20, TAB, CHR 0x20], good_line],
        cpc := C_Recv, processed := 7, errors := 3\<rparr>"

section \<open>The order of the calls of \<^verbatim>\<open>processFile\<close>\<close>

text \<open>
  Each call of \<^verbatim>\<open>processFile\<close> starts by logging the file (line 144), and nothing else
  writes that line: the files entered so far, in order, are read off the log.
\<close>

fun opened :: "'f log_entry list \<Rightarrow> filepath list" where
  "opened [] = []"
| "opened (LogProcessingFile f # es) = f # opened es"
| "opened (e # es) = opened es"

text \<open>
  The writers that have not returned.  Between \<^verbatim>\<open>wg.Add(1)\<close> (line 197) and the go
  statement (line 200) the wait group already counts a writer that does not run yet.  The
  main goroutine is \<open>dispatching\<close> from the scanning loop to \<^verbatim>\<open>wg.Wait()\<close> (lines 178
  to 213).
\<close>

definition live :: "'f state \<Rightarrow> nat" where
  "live s = length (filter (\<lambda>w. wpc w \<noteq> W_Exit) (workers s))"

fun pending :: "'f main_pc \<Rightarrow> nat" where
  "pending (M_Acquire c a) = 1"
| "pending (M_Go c a) = 1"
| "pending _ = 0"

fun dispatching :: "'f main_pc \<Rightarrow> bool" where
  "dispatching M_Scan = True"
| "dispatching (M_ErrLoad site) = True"
| "dispatching (M_ErrStore site v) = True"
| "dispatching (M_LogUnknown d) = True"
| "dispatching (M_Add c a) = True"
| "dispatching (M_Acquire c a) = True"
| "dispatching (M_Go c a) = True"
| "dispatching M_Wait = True"
| "dispatching _ = False"

text \<open>
  What every step keeps: the files entered, the file the loop has just taken and the files
  still to come make up the list that the loop runs over; the wait group counts the writers
  that have not returned; outside the dispatching part it is 0.
\<close>

definition seq_inv :: "filepath list \<Rightarrow> 'f state \<Rightarrow> bool" where
  "seq_inv order s \<longleftrightarrow>
     opened (logs s) @ (if mpc s = M_Open then [filename s] else []) @ files s = order \<and>
     wg s = live s + pending (mpc s) \<and>
     (dispatching (mpc s) \<or> wg s = 0) \<and>
     (mpc s = M_Finished \<longrightarrow> files s = [])"

text \<open>
  Three empty files found in the order of their names: one directory in which the third is
  the oldest and the first is older than the second, and one in which the first two have
  the same modification time.
\<close>

definition file_c :: filepath where
  "file_c = \<lparr>dir = ''/data/appsinstalled'', base = ''c.tsv.gz''\<rparr>"

definition three_fs :: filesystem where
  "three_fs =
     [file_a \<mapsto> \<lparr>mtime = 2, locked = False, content = Gzip [] False\<rparr>,
      file_b \<mapsto> \<lparr>mtime = 3, locked = False, content = Gzip [] False\<rparr>,
      file_c \<mapsto> \<lparr>mtime = 1, locked = False, content = Gzip [] False\<rparr>]"

definition ties_fs :: filesystem where
  "ties_fs =
     [file_a \<mapsto> \<lparr>mtime = 2, locked = False, content = Gzip [] False\<rparr>,
      file_b \<mapsto> \<lparr>mtime = 2, locked = False, content = Gzip [] False\<rparr>,
      file_c \<mapsto> \<lparr>mtime = 1, locked = False, content = Gzip [] False\<rparr>]"

section \<open>Evaluating the string functions\<close>

lemma unicode_spaces_all: "list_all (\<lambda>enc. enc \<noteq> [] \<and> (128::nat) \<le> of_char (hd enc) \<and> (128::nat) \<le> of_char (last enc)) unicode_spaces"
  by (simp add: unicode_spaces_def)

lemma unicode_spaces_heads: "enc \<in> set unicode_spaces \<Longrightarrow> enc \<noteq> [] \<and> (128::nat) \<le> of_char (hd enc) \<and> (128::nat) \<le> of_char (last enc)"
  using unicode_spaces_all by (simp add: list_all_iff)

lemma no_enc_prefix: 
  assumes "(of_char c :: nat) < 128" 
  shows "find (\<lambda>enc. prefix enc (c # cs)) unicode_spaces = None"
proof -
  have "\<not> prefix enc (c # cs)" if "enc \<in> set unicode_spaces" for enc
  proof
    assume p: "prefix enc (c # cs)"
    from that have h: "enc \<noteq> []" "(128::nat) \<le> of_char (hd enc)" using unicode_spaces_heads by auto
    from p h(1) have "hd enc = c" by (cases enc) auto
    with h(2) assms show False by simp
  qed
  then show ?thesis by (simp add: find_None_iff)
qed

lemma no_enc_suffix: 
  assumes "s \<noteq> []" "(of_char (last s) :: nat) < 128" 
  shows "find (\<lambda>enc. suffix enc s) unicode_spaces = None"
proof -
  have "\<not> suffix enc s" if "enc \<in> set unicode_spaces" for enc
  proof
    assume p: "suffix enc s"
    from that have h: "enc \<noteq> []" "(128::nat) \<le> of_char (last enc)" using unicode_spaces_heads by auto
    from p h(1) have "last enc = last s" by (auto simp: suffix_def)
    with h(2) assms show False by simp
  qed
  then show ?thesis by (simp add: find_None_iff)
qed

lemma trim_left_Nil: "trim_left [] = []"
  by (simp add: trim_left.simps space_prefix_def)

lemma trim_left_space: "ascii_space c \<Longrightarrow> trim_left (c # cs) = trim_left cs"
  by (subst trim_left.simps) (simp add: space_prefix_def)

lemma trim_left_plain: "\<not> ascii_space c \<Longrightarrow> (of_char c :: nat) < 128 \<Longrightarrow> trim_left (c # cs) = c # cs"
  by (subst trim_left.simps) (simp add: space_prefix_def no_enc_prefix)

lemma trim_right_Nil: "trim_right [] = []"
  by (simp add: trim_right.simps space_suffix_def)

lemma trim_right_space: "ascii_space c \<Longrightarrow> trim_right (s @ [c]) = trim_right s"
  by (subst trim_right.simps) (simp add: space_suffix_def)

lemma trim_right_plain: "s \<noteq> [] \<Longrightarrow> \<not> ascii_space (last s) \<Longrightarrow> (of_char (last s) :: nat) < 128 \<Longrightarrow> trim_right s = s"
  by (subst trim_right.simps) (simp add: space_suffix_def no_enc_suffix)

lemmas trim_eval = TrimSpace_def trim_left_Nil trim_left_space trim_left_plain
  trim_right_Nil trim_right_plain ascii_space_def
lemmas uint_eval = ParseUint_def is_digit_def decimal_def digit_val_def

lemma ParseUint_Nil: "ParseUint [] = None"
  by (simp add: ParseUint_def)

lemma parse_apps_eq:
  "parse_apps line ts =
     (map (\<lambda>t. LogNotAllNumeric line)
        (filter (\<lambda>t. TrimSpace t \<noteq> [] \<and> ParseUint (TrimSpace t) = None) ts),
      List.map_filter (\<lambda>t. ParseUint (TrimSpace t)) ts)"
  by (induction ts) (auto simp: List.map_filter_simps ParseUint_Nil Let_def split: option.splits)

text \<open>
  Claim C7, as amended.  On a line that, once trimmed, has five fields or more, a device type
  and a device id that are not empty and two coordinates that parse, the tokens of the
  fifth field never fail the record.  A token that is empty after trimming is passed over
  and nothing is logged for it (lines 91 to 93); a token that is not empty and is no
  unsigned 32-bit number is logged once and passed over (lines 94 to 98); the record holds
  the other tokens in their order.  When no token is a number, as when the fifth field is
  empty, the list of applications is empty.  The line
  \<^verbatim>\<open>idfa\tID1\t55.55\t42.42\t1,x,3\<close> gives the applications 1 and 3.
\<close>

theorem parse_skips_bad_app_ids:
  assumes "parts = Split (TrimSpace line) TAB" and "5 \<le> length parts"
    and "parts ! 0 \<noteq> []" and "parts ! 1 \<noteq> []"
    and "pf (parts ! 2) = Some lat" and "pf (parts ! 3) = Some lon"
    and "tokens = Split (parts ! 4) CHR '',''"
  shows "parseAppsInstalled pf line =
           (map (\<lambda>t. LogNotAllNumeric line)
              (filter (\<lambda>t. TrimSpace t \<noteq> [] \<and> ParseUint (TrimSpace t) = None) tokens),
            Inr \<lparr>DevType = parts ! 0, DevID = parts ! 1, Lat = lat, Lon = lon,
                 Apps = List.map_filter (\<lambda>t. ParseUint (TrimSpace t)) tokens\<rparr>)"
  using assms by (simp add: parseAppsInstalled_def Let_def parse_apps_eq)

text \<open>
  Three lines: the one of the claim; one whose fifth field is empty and is followed by a
  sixth field; one whose tokens are a word, a blank and a signed number.
\<close>

theorem parse_skips_bad_app_ids_witness:
  "parseAppsInstalled decimal_ParseFloat
      (''idfa'' @ TAB # ''ID1'' @ TAB # ''55.55'' @ TAB # ''42.42'' @ TAB # ''1,x,3'') =
     ([LogNotAllNumeric (''idfa'' @ TAB # ''ID1'' @ TAB # ''55.55'' @ TAB # ''42.42'' @ TAB # ''1,x,3'')],
      Inr \<lparr>DevType = ''idfa'', DevID = ''ID1'', Lat = 1111 / 20, Lon = 2121 / 50, Apps = [1, 3]\<rparr>) \<and>
   parseAppsInstalled decimal_ParseFloat
      (''idfa'' @ TAB # ''ID1'' @ TAB # ''55.55'' @ TAB # ''42.42'' @ TAB # TAB # ''7'') =
     ([], Inr \<lparr>DevType = ''idfa'', DevID = ''ID1'', Lat = 1111 / 20, Lon = 2121 / 50, Apps = []\<rparr>) \<and>
   parseAppsInstalled decimal_ParseFloat
      (''idfa'' @ TAB # ''ID1'' @ TAB # ''55.55'' @ TAB # ''42.42'' @ TAB # ''x, ,-1'') =
     ([LogNotAllNumeric (''idfa'' @ TAB # ''ID1'' @ TAB # ''55.55'' @ TAB # ''42.42'' @ TAB # ''x, ,-1''),
       LogNotAllNumeric (''idfa'' @ TAB # ''ID1'' @ TAB # ''55.55'' @ TAB # ''42.42'' @ TAB # ''x, ,-1'')],
      Inr \<lparr>DevType = ''idfa'', DevID = ''ID1'', Lat = 1111 / 20, Lon = 2121 / 50, Apps = []\<rparr>)"
proof (intro conjI)
  show "parseAppsInstalled decimal_ParseFloat
      (''idfa'' @ TAB # ''ID1'' @ TAB # ''55.55'' @ TAB # ''42.42'' @ TAB # ''1,x,3'') =
     ([LogNotAllNumeric (''idfa'' @ TAB # ''ID1'' @ TAB # ''55.55'' @ TAB # ''42.42'' @ TAB # ''1,x,3'')],
      Inr \<lparr>DevType = ''idfa'', DevID = ''ID1'', Lat = 1111 / 20, Lon = 2121 / 50, Apps = [1, 3]\<rparr>)"
    using parse_skips_bad_app_ids [of "[''idfa'', ''ID1'', ''55.55'', ''42.42'', ''1,x,3'']"
      "''idfa'' @ TAB # ''ID1'' @ TAB # ''55.55'' @ TAB # ''42.42'' @ TAB # ''1,x,3''"
      decimal_ParseFloat "1111 / 20" "2121 / 50" "[''1'', ''x'', ''3'']"]
    by (simp add: trim_eval uint_eval decimal_ParseFloat_def List.map_filter_simps)
next
  let ?line = "''idfa'' @ TAB # ''ID1'' @ TAB # ''55.55'' @ TAB # ''42.42'' @ TAB # TAB # ''7''"
  let ?parts = "[''idfa'', ''ID1'', ''55.55'', ''42.42'', [], ''7'']"
  have 1: "?parts = Split (TrimSpace ?line) TAB" by (simp add: trim_eval)
  have 2: "5 \<le> length ?parts" by simp
  have 3: "?parts ! 0 \<noteq> []" "?parts ! 1 \<noteq> []" by simp_all
  have 4: "decimal_ParseFloat (?parts ! 2) = Some (1111 / 20)"
    "decimal_ParseFloat (?parts ! 3) = Some (2121 / 50)"
    by (simp_all add: decimal_ParseFloat_def uint_eval)
  have 5: "[[]] = Split (?parts ! 4) CHR '',''" by simp
  from parse_skips_bad_app_ids [OF 1 2 3 4 5]
  show "parseAppsInstalled decimal_ParseFloat ?line =
     ([], Inr \<lparr>DevType = ''idfa'', DevID = ''ID1'', Lat = 1111 / 20, Lon = 2121 / 50, Apps = []\<rparr>)"
    by (simp add: trim_eval List.map_filter_simps uint_eval)
next
  show "parseAppsInstalled decimal_ParseFloat
      (''idfa'' @ TAB # ''ID1'' @ TAB # ''55.55'' @ TAB # ''42.42'' @ TAB # ''x, ,-1'') =
     ([LogNotAllNumeric (''idfa'' @ TAB # ''ID1'' @ TAB # ''55.55'' @ TAB # ''42.42'' @ TAB # ''x, ,-1''),
       LogNotAllNumeric (''idfa'' @ TAB # ''ID1'' @ TAB # ''55.55'' @ TAB # ''42.42'' @ TAB # ''x, ,-1'')],
      Inr \<lparr>DevType = ''idfa'', DevID = ''ID1'', Lat = 1111 / 20, Lon = 2121 / 50, Apps = []\<rparr>)"
    using parse_skips_bad_app_ids [of "[''idfa'', ''ID1'', ''55.55'', ''42.42'', ''x, ,-1'']"
      "''idfa'' @ TAB # ''ID1'' @ TAB # ''55.55'' @ TAB # ''42.42'' @ TAB # ''x, ,-1''"
      decimal_ParseFloat "1111 / 20" "2121 / 50" "[''x'', '' '', ''-1'']"]
    by (simp add: trim_eval uint_eval decimal_ParseFloat_def List.map_filter_simps)
qed

lemma trim_right_last_space:
  "s \<noteq> [] \<Longrightarrow> ascii_space (last s) \<Longrightarrow> trim_right s = trim_right (butlast s)"
  by (subst trim_right.simps) (simp add: space_suffix_def butlast_conv_take)

text \<open>
  Claim C7, as stated, fails on two lines.  On the line \<^verbatim>\<open>idfa\tID1\t55.55\t42.42\t\<close>,
  whose list of applications is empty, the trimming of line 61 takes the last tab, four
  fields are left and the record fails as malformed.  On the line
  \<^verbatim>\<open>idfa\tID1\t55.55\t42.42\t1,,3\<close> the empty token, which is no unsigned number, is
  passed over and no diagnostic is written.
\<close>

theorem empty_app_list_and_empty_token:
  "parseAppsInstalled decimal_ParseFloat
      (''idfa'' @ TAB # ''ID1'' @ TAB # ''55.55'' @ TAB # ''42.42'' @ [TAB]) =
     ([], Inl MalformedLine) \<and>
   parseAppsInstalled decimal_ParseFloat
      (''idfa'' @ TAB # ''ID1'' @ TAB # ''55.55'' @ TAB # ''42.42'' @ TAB # ''1,,3'') =
     ([], Inr \<lparr>DevType = ''idfa'', DevID = ''ID1'', Lat = 1111 / 20, Lon = 2121 / 50, Apps = [1, 3]\<rparr>)"
proof
  show "parseAppsInstalled decimal_ParseFloat
      (''idfa'' @ TAB # ''ID1'' @ TAB # ''55.55'' @ TAB # ''42.42'' @ [TAB]) = ([], Inl MalformedLine)"
    by (simp add: parseAppsInstalled_def trim_eval trim_right_last_space)
next
  show "parseAppsInstalled decimal_ParseFloat
      (''idfa'' @ TAB # ''ID1'' @ TAB # ''55.55'' @ TAB # ''42.42'' @ TAB # ''1,,3'') =
     ([], Inr \<lparr>DevType = ''idfa'', DevID = ''ID1'', Lat = 1111 / 20, Lon = 2121 / 50, Apps = [1, 3]\<rparr>)"
    by (simp add: parseAppsInstalled_def trim_eval uint_eval decimal_ParseFloat_def)
qed

text \<open>
  Claim C6.  The line \<^verbatim>\<open>\t\t55.55\t42.42\t1\<close> of the claim is trimmed before it is split:
  the two leading tabs go, three fields are left, and the error is the one for too few
  fields, not the one for an empty device type.
\<close>

theorem empty_first_field_is_malformed:
  "parseAppsInstalled pf (TAB # TAB # ''55.55'' @ TAB # ''42.42'' @ TAB # ''1'') = ([], Inl MalformedLine)"
  by (simp add: parseAppsInstalled_def trim_eval)

section \<open>The runs of the concrete inputs\<close>

lemma sort1: "sort_outer 0 [x] = [x]"
  by (simp add: sort_outer.simps sort_inner.simps)

lemma parse_good: "parseAppsInstalled decimal_ParseFloat good_line = ([], Inr \<lparr>DevType = ''idfa'', DevID = ''ID1'', Lat = 1111 / 20, Lon = 2121 / 50, Apps = [1, 2, 3]\<rparr>)"
  by (simp add: good_line_def parseAppsInstalled_def trim_eval uint_eval decimal_ParseFloat_def)

lemma trim_good: "TrimSpace good_line = good_line"
  by (simp add: good_line_def trim_eval)

lemma good_ne: "good_line \<noteq> []" by (simp add: good_line_def)

lemma dev_idfa: "deviceMemc example_env ''idfa'' = Some \<lparr>addr = ''127.0.0.1:33013''\<rparr>"
  by (simp add: example_env_def main_deviceMemc_def default_config_def)

lemma env_sel:
  "ParseFloat example_env = decimal_ParseFloat"
  "Marshal example_env = (\<lambda>ua. Some [])"
  "dry example_env = False"
  by (simp_all add: example_env_def default_config_def)


lemmas run_eval = main_start_def sort1 main_step_def worker_step_def counter_step_def
  trim_good good_ne parse_good dev_idfa env_sel insertAppsInstalled_def dotRename_def
  os_Rename_def one_line_fs_def

section \<open>The semaphore bounds the writers in flight\<close>

lemma filter_update_count:
  "i < length ws \<Longrightarrow>
   length (filter P (ws[i := w])) + (if P (ws ! i) then 1 else 0) =
   length (filter P ws) + (if P w then 1 else 0)"
proof (induction ws arbitrary: i)
  case Nil
  then show ?case by simp
next
  case (Cons a ws)
  show ?case
  proof (cases i)
    case 0
    then show ?thesis by simp
  next
    case (Suc k)
    with Cons.prems have "k < length ws" by simp
    from Cons.IH [OF this] Suc show ?thesis by simp
  qed
qed

lemma in_flight_update:
  assumes "i < length (workers s)"
  shows "in_flight (s\<lparr>workers := (workers s)[i := w]\<rparr>) + (if holds_slot (wpc (workers s ! i)) then 1 else 0) =
         in_flight s + (if holds_slot (wpc w) then 1 else 0)"
  using filter_update_count [OF assms, of "\<lambda>w. holds_slot (wpc w)" w]
  by (simp add: in_flight_def)

lemma main_step_slots:
  assumes "main_step env s = Some s'" and "slots_inv s"
  shows "slots_inv s' \<and> semaphore_cap s' = semaphore_cap s"
  using assms
  by (cases "mpc s")
     (auto simp: main_step_def slots_inv_def in_flight_def
       split: list.splits if_splits prod.splits sum.splits option.splits
         content.splits err_site.splits)

lemma counter_step_slots:
  assumes "counter_step s = Some s'" and "slots_inv s"
  shows "slots_inv s' \<and> semaphore_cap s' = semaphore_cap s"
  using assms
  by (cases "cpc s")
     (auto simp: counter_step_def slots_inv_def in_flight_def split: list.splits if_splits)

lemma worker_step_slots:
  assumes "worker_step env i ok s = Some s'" and "slots_inv s"
  shows "slots_inv s' \<and> semaphore_cap s' = semaphore_cap s"
proof -
  from assms(1) have len: "i < length (workers s)"
    by (auto simp: worker_step_def split: if_splits)
  note upd = in_flight_update [OF len]
  show ?thesis
  proof (cases "wpc (workers s ! i)")
    case W_Insert
    with assms len upd [of "(workers s ! i)\<lparr>wpc := W_Send (snd (insertAppsInstalled (Marshal env) ok (wclient (workers s ! i)) (wapps (workers s ! i)) (dry env)))\<rparr>"]
    show ?thesis
      by (auto simp: worker_step_def slots_inv_def in_flight_def Let_def split: prod.splits)
  next
    case (W_Send err)
    with assms len upd [of "(workers s ! i)\<lparr>wpc := W_LogErr err\<rparr>"]
    show ?thesis
      by (auto simp: worker_step_def slots_inv_def in_flight_def Let_def split: if_splits)
  next
    case (W_LogErr err)
    with assms len upd [of "(workers s ! i)\<lparr>wpc := W_Release\<rparr>"]
    show ?thesis
      by (auto simp: worker_step_def slots_inv_def in_flight_def Let_def)
  next
    case W_Release
    with assms len upd [of "(workers s ! i)\<lparr>wpc := W_Done\<rparr>"]
    show ?thesis
      by (auto simp: worker_step_def slots_inv_def in_flight_def Let_def split: if_splits)
  next
    case W_Done
    with assms len upd [of "(workers s ! i)\<lparr>wpc := W_Exit\<rparr>"]
    show ?thesis
      by (auto simp: worker_step_def slots_inv_def in_flight_def Let_def split: if_splits)
  next
    case W_Exit
    with assms len show ?thesis
      by (auto simp: worker_step_def Let_def)
  qed
qed

lemma step_slots:
  assumes "step env l s = Some s'" and "slots_inv s"
  shows "slots_inv s' \<and> semaphore_cap s' = semaphore_cap s"
  using assms
  by (cases l) (auto dest: main_step_slots counter_step_slots worker_step_slots)

lemma run_slots:
  assumes "run env sched s = Some s'" and "slots_inv s"
  shows "slots_inv s' \<and> semaphore_cap s' = semaphore_cap s"
  using assms
proof (induction sched arbitrary: s)
  case Nil
  then show ?case by simp
next
  case (Cons l ls)
  from Cons.prems(1) obtain s1 where s1: "step env l s = Some s1" and rest: "run env ls s1 = Some s'"
    by (auto split: option.splits)
  from step_slots [OF s1 Cons.prems(2)] have "slots_inv s1" "semaphore_cap s1 = semaphore_cap s" by auto
  with Cons.IH [OF rest] show ?case by simp
qed

lemma main_start_slots: "slots_inv (main_start config fs0 globbed)"
  by (simp add: slots_inv_def main_start_def in_flight_def)

text \<open>
  Claim C3.  In every state that any schedule reaches from the start of \<^verbatim>\<open>main\<close>,
  the semaphore holds exactly one element for each writer in flight (and one for the writer
  that the main goroutine is about to start), its capacity is the 100 of line 362, and so at
  most 100 writers are in flight.  A writer takes its slot before it starts and gives it
  back once, whatever \<^verbatim>\<open>insertAppsInstalled\<close> returned.
\<close>

theorem in_flight_bounded:
  assumes "run env sched (main_start config fs0 globbed) = Some s"
  shows "semaphore s = in_flight s + (case mpc s of M_Go c a \<Rightarrow> 1 | _ \<Rightarrow> 0) \<and>
         semaphore_cap s = 100 \<and> in_flight s \<le> 100"
proof -
  from run_slots [OF assms main_start_slots]
  have "slots_inv s" and "semaphore_cap s = 100" by (simp_all add: main_start_def)
  then show ?thesis by (auto simp: slots_inv_def)
qed


theorem in_flight_bounded_witness:
  "case run example_env [Main, Main, Main, Main, Main, Main]
          (main_start default_config one_line_fs [file_a]) of
     None \<Rightarrow> False
   | Some s \<Rightarrow> in_flight s = 1 \<and> semaphore s = 1 \<and> in_flight s \<le> 100"
proof -
  obtain s where r: "run example_env [Main, Main, Main, Main, Main, Main]
      (main_start default_config one_line_fs [file_a]) = Some s"
    by (simp add: run_eval)
  from in_flight_bounded [OF r] have "in_flight s \<le> 100" by simp
  moreover from r have "in_flight s = 1 \<and> semaphore s = 1"
    by (clarsimp simp: run_eval in_flight_def)
  ultimately show ?thesis using r by simp
qed

section \<open>Rounding and the threshold\<close>

lemma rhe_of_int: "round_half_even (of_int n) = n"
  by (simp add: round_half_even_def)

lemma rhe_le:
  assumes "x \<le> of_int n + 1 / 2" and "even n"
  shows "round_half_even x \<le> n"
proof -
  have fl: "of_int \<lfloor>x\<rfloor> \<le> x" "x < of_int \<lfloor>x\<rfloor> + 1" by linarith+
  consider "\<lfloor>x\<rfloor> < n" | "\<lfloor>x\<rfloor> = n" | "n < \<lfloor>x\<rfloor>" by linarith
  then show ?thesis
  proof cases
    case 1
    then show ?thesis by (simp add: round_half_even_def Let_def)
  next
    case 2
    with assms show ?thesis by (auto simp: round_half_even_def Let_def)
  next
    case 3
    then have "of_int n + 1 \<le> (of_int \<lfloor>x\<rfloor> :: rat)" by linarith
    with fl assms(1) show ?thesis by linarith
  qed
qed

lemma rhe_ge:
  assumes "of_int n - 1 / 2 < x"
  shows "n \<le> round_half_even x"
proof -
  have fl: "of_int \<lfloor>x\<rfloor> \<le> x" "x < of_int \<lfloor>x\<rfloor> + 1" by linarith+
  from assms fl(2) have "of_int n - 1 / 2 < (of_int \<lfloor>x\<rfloor> :: rat) + 1" by linarith
  then have "of_int n < (of_int (\<lfloor>x\<rfloor> + 2) :: rat)" by simp
  then have "n < \<lfloor>x\<rfloor> + 2" by (simp only: of_int_less_iff)
  then consider "n \<le> \<lfloor>x\<rfloor>" | "\<lfloor>x\<rfloor> = n - 1" by linarith
  then show ?thesis
  proof cases
    case 1
    then show ?thesis by (simp add: round_half_even_def Let_def)
  next
    case 2
    then have "x - of_int \<lfloor>x\<rfloor> = x - of_int n + 1" by simp
    with assms have "1 / 2 < x - of_int \<lfloor>x\<rfloor>" by linarith
    with 2 show ?thesis by (simp add: round_half_even_def Let_def)
  qed
qed

lemma rhe_lt:
  assumes "x < of_int n + 1 / 2"
  shows "round_half_even x \<le> n"
proof -
  have fl: "of_int \<lfloor>x\<rfloor> \<le> x" "x < of_int \<lfloor>x\<rfloor> + 1" by linarith+
  consider "\<lfloor>x\<rfloor> < n" | "\<lfloor>x\<rfloor> = n" | "n < \<lfloor>x\<rfloor>" by linarith
  then show ?thesis
  proof cases
    case 1
    then show ?thesis by (simp add: round_half_even_def Let_def)
  next
    case 2
    with assms show ?thesis by (auto simp: round_half_even_def Let_def)
  next
    case 3
    then have "of_int n + 1 \<le> (of_int \<lfloor>x\<rfloor> :: rat)" by linarith
    with fl assms(1) show ?thesis by linarith
  qed
qed

lemma rhe_eq:
  assumes "of_int n - 1 / 2 < x" and "x < of_int n + 1 / 2"
  shows "round_half_even x = n"
  using rhe_ge [OF assms(1)] rhe_lt [OF assms(2)] by simp

lemma ilog2_bounds:
  assumes "0 < x"
  shows "2 powi ilog2 x \<le> x \<and> x < 2 powi (ilog2 x + 1)"
proof -
  define a where "a = fst (quotient_of x)"
  define b where "b = snd (quotient_of x)"
  have b: "0 < b" unfolding b_def by (rule quotient_of_denom_pos')
  have x: "x = of_int a / of_int b"
    unfolding a_def b_def by (rule quotient_of_div) simp
  from assms b x have a: "0 < a" by (simp add: zero_less_divide_iff)
  define la where "la = bitlen a"
  define lb where "lb = bitlen b"
  from a b have la: "1 \<le> la" and lb: "1 \<le> lb"
    unfolding la_def lb_def by (simp_all add: bitlen_alt_def)
  from bitlen_bounds [OF a] have "(2::int) ^ nat (la - 1) \<le> a" "a < 2 ^ nat la"
    by (simp_all add: la_def)
  then have "(of_int ((2::int) ^ nat (la - 1)) :: rat) \<le> of_int a" "(of_int a :: rat) < of_int (2 ^ nat la)"
    by (simp_all only: of_int_le_iff of_int_less_iff)
  with la have A: "(2::rat) powi (la - 1) \<le> of_int a" "of_int a < (2::rat) powi la"
    by (simp_all add: power_int_def)
  from bitlen_bounds [OF b] have "(2::int) ^ nat (lb - 1) \<le> b" "b < 2 ^ nat lb"
    by (simp_all add: lb_def)
  then have "(of_int ((2::int) ^ nat (lb - 1)) :: rat) \<le> of_int b" "(of_int b :: rat) < of_int (2 ^ nat lb)"
    by (simp_all only: of_int_le_iff of_int_less_iff)
  with lb have B: "(2::rat) powi (lb - 1) \<le> of_int b" "of_int b < (2::rat) powi lb"
    by (simp_all add: power_int_def)
  have bpos: "(0::rat) < of_int b" using b by simp
  have apos: "(0::rat) < of_int a" using a by simp
  have p: "(0::rat) < 2 powi n" for n by simp
  have "x < 2 powi la / 2 powi (lb - 1)"
    unfolding x using A(2) B(1) bpos apos p [of "lb - 1"] p [of la]
    by (intro frac_less) simp_all
  also have "\<dots> = 2 powi (la - lb + 1)"
    by (simp add: power_int_diff [symmetric] algebra_simps)
  finally have up: "x < 2 powi (la - lb + 1)" .
  have "(2::rat) powi (la - 1) / 2 powi lb \<le> x"
  proof -
    have "(0::rat) \<le> of_int a" using apos by simp
    moreover note A(1)
    moreover have "(0::rat) < of_int b" by (rule bpos)
    moreover have "(of_int b :: rat) \<le> 2 powi lb" using B(2) by simp
    ultimately have "(2::rat) powi (la - 1) / 2 powi lb \<le> of_int a / of_int b"
      by (rule frac_le)
    then show ?thesis by (simp only: x)
  qed
  moreover have "(2::rat) powi (la - 1) / 2 powi lb = 2 powi (la - lb - 1)"
    by (simp add: power_int_diff [symmetric] algebra_simps)
  ultimately have low: "2 powi (la - lb - 1) \<le> x" by simp
  show ?thesis
  proof (cases "2 powi (la - lb) \<le> x")
    case True
    with up show ?thesis by (simp add: ilog2_def Let_def a_def b_def la_def lb_def)
  next
    case False
    then have "x < 2 powi (la - lb)" by simp
    with low False show ?thesis
      by (simp add: ilog2_def Let_def a_def b_def la_def lb_def)
  qed
qed

lemma powi_less_imp:
  assumes "(2::rat) powi m < 2 powi n"
  shows "m < n"
proof (rule ccontr)
  assume "\<not> m < n"
  then have "n \<le> m" by simp
  then have "(2::rat) powi n \<le> 2 powi m" by (rule power_int_increasing) simp
  with assms show False by simp
qed

lemma ilog2_unique:
  assumes "2 powi k \<le> x" and "x < 2 powi (k + 1)"
  shows "ilog2 x = k"
proof -
  have pos: "0 < x" using assms(1) by (rule less_le_trans [rotated]) simp
  from ilog2_bounds [OF pos] have b: "2 powi ilog2 x \<le> x" "x < 2 powi (ilog2 x + 1)" by auto
  from b(1) assms(2) have "(2::rat) powi ilog2 x < 2 powi (k + 1)" by simp
  then have 1: "ilog2 x < k + 1" by (rule powi_less_imp)
  from assms(1) b(2) have "(2::rat) powi k < 2 powi (ilog2 x + 1)" by simp
  then have 2: "k < ilog2 x + 1" by (rule powi_less_imp)
  from 1 2 show ?thesis by simp
qed

lemma float64_eq:
  assumes "2 powi k \<le> x" and "x < 2 powi (k + 1)"
  shows "float64 x = of_int (round_half_even (x / 2 powi (k - 52))) * 2 powi (k - 52)"
proof -
  have pos: "0 < x" using assms(1) by (rule less_le_trans [rotated]) simp
  with ilog2_unique [OF assms] show ?thesis by (simp add: float64_def)
qed

lemma float64_of_nat:
  assumes "n < 2 ^ 53"
  shows "float64 (of_nat n) = of_nat n"
proof (cases "n = 0")
  case True
  then show ?thesis by (simp add: float64_def)
next
  case False
  then have pos: "(0::rat) < of_nat n" by simp
  define k where "k = ilog2 (of_nat n)"
  from ilog2_bounds [OF pos] have b: "2 powi k \<le> (of_nat n :: rat)" "(of_nat n :: rat) < 2 powi (k + 1)"
    by (simp_all add: k_def)
  have "(of_nat n :: rat) < 2 powi 53" using assms
    by (simp add: of_nat_less_iff [of n "2 ^ 53", where ?'a = rat, symmetric] del: of_nat_less_iff)
  with b(1) have "(2::rat) powi k < 2 powi 53" by (rule le_less_trans)
  then have k: "k < 53" by (rule powi_less_imp)
  then have e: "0 \<le> 52 - k" by simp
  have "(of_nat n :: rat) / 2 powi (k - 52) = of_nat n * 2 powi (52 - k)"
    by (simp add: power_int_diff field_simps)
  also have "\<dots> = of_int (int n * 2 ^ nat (52 - k))"
    using e by (simp add: power_int_def)
  finally have "round_half_even (of_nat n / 2 powi (k - 52)) = int n * 2 ^ nat (52 - k)"
    by (simp only: rhe_of_int)
  then have "float64 (of_nat n) = of_int (int n * 2 ^ nat (52 - k)) * 2 powi (k - 52)"
    using pos by (simp add: float64_def k_def)
  also have "\<dots> = of_nat n * (2 powi (52 - k) * 2 powi (k - 52))"
    using e by (simp add: power_int_def)
  also have "2 powi (52 - k) * 2 powi (k - 52) = (1::rat)"
    by (simp add: power_int_add [symmetric])
  finally show ?thesis by simp
qed


lemma normalErrRate_eq: "normalErrRate = 5764607523034235 / 2 ^ 59"
proof -
  have "float64 (1 / 100) =
      of_int (round_half_even ((1 / 100) / 2 powi (- 7 - 52))) * 2 powi (- 7 - 52)"
    by (rule float64_eq) (simp_all add: power_int_minus)
  also have "((1::rat) / 100) / 2 powi (- 7 - 52) = 576460752303423488 / 100"
    by (simp add: power_int_minus)
  also have "round_half_even (576460752303423488 / 100) = 5764607523034235"
    by (rule rhe_eq) simp_all
  finally show ?thesis by (simp add: normalErrRate_def power_int_minus field_simps)
qed

lemma float64_le_pow:
  assumes "0 < x" and "x < 2 powi m"
  shows "float64 x \<le> 2 powi m"
proof -
  define k where "k = ilog2 x"
  from ilog2_bounds [OF assms(1)] have b: "2 powi k \<le> x" "x < 2 powi (k + 1)"
    by (simp_all add: k_def)
  from b(1) assms(2) have "(2::rat) powi k < 2 powi m" by (rule le_less_trans)
  then have km: "k + 1 \<le> m" using powi_less_imp by fastforce
  have "x / 2 powi (k - 52) < 2 powi (k + 1) / 2 powi (k - 52)"
    using b(2) by (simp add: divide_strict_right_mono)
  also have "\<dots> = 2 ^ 53" by (simp add: power_int_diff [symmetric])
  finally have lt: "x / 2 powi (k - 52) < 2 ^ 53" .
  have "(2::rat) ^ 53 = of_int (2 ^ 53)" by simp
  with lt have "x / 2 powi (k - 52) < of_int (2 ^ 53) + 1 / 2" by linarith
  then have "round_half_even (x / 2 powi (k - 52)) \<le> 2 ^ 53" by (rule rhe_lt)
  then have "(of_int (round_half_even (x / 2 powi (k - 52))) :: rat) \<le> of_int (2 ^ 53)"
    by (simp only: of_int_le_iff)
  then have "float64 x \<le> 2 ^ 53 * 2 powi (k - 52)"
    using assms(1) by (simp add: float64_def k_def mult_right_mono)
  also have "\<dots> = 2 powi (k + 1)"
  proof -
    have e: "53 + (k - 52) = k + 1" by simp
    have "(2::rat) ^ 53 * 2 powi (k - 52) = 2 powi 53 * 2 powi (k - 52)" by simp
    also have "\<dots> = 2 powi (53 + (k - 52))" by (rule power_int_add [symmetric]) simp
    finally show ?thesis by (simp only: e)
  qed
  also have "\<dots> \<le> 2 powi m" using km by (rule power_int_increasing) simp
  finally show ?thesis .
qed

lemma float64_ge_pow:
  assumes "2 powi m \<le> x"
  shows "2 powi m \<le> float64 x"
proof -
  have pos: "0 < x" using assms by (rule less_le_trans [rotated]) simp
  define k where "k = ilog2 x"
  from ilog2_bounds [OF pos] have b: "2 powi k \<le> x" "x < 2 powi (k + 1)"
    by (simp_all add: k_def)
  from assms b(2) have "(2::rat) powi m < 2 powi (k + 1)" by (rule le_less_trans)
  then have km: "m \<le> k" using powi_less_imp by fastforce
  have "2 powi k / 2 powi (k - 52) \<le> x / 2 powi (k - 52)"
    using b(1) by (simp add: divide_right_mono)
  moreover have "(2::rat) powi k / 2 powi (k - 52) = 2 ^ 52"
    by (simp add: power_int_diff [symmetric])
  ultimately have ge: "2 ^ 52 \<le> x / 2 powi (k - 52)" by simp
  have "(2::rat) ^ 52 = of_int (2 ^ 52)" by simp
  with ge have "of_int (2 ^ 52) - 1 / 2 < x / 2 powi (k - 52)" by linarith
  then have "2 ^ 52 \<le> round_half_even (x / 2 powi (k - 52))" by (rule rhe_ge)
  then have "(of_int (2 ^ 52) :: rat) \<le> of_int (round_half_even (x / 2 powi (k - 52)))"
    by (simp only: of_int_le_iff)
  then have "2 ^ 52 * 2 powi (k - 52) \<le> float64 x"
    using pos by (simp add: float64_def k_def mult_right_mono)
  moreover have "(2::rat) ^ 52 * 2 powi (k - 52) = 2 powi k"
  proof -
    have e: "52 + (k - 52) = k" by simp
    have "(2::rat) ^ 52 * 2 powi (k - 52) = 2 powi 52 * 2 powi (k - 52)" by simp
    also have "\<dots> = 2 powi (52 + (k - 52))" by (rule power_int_add [symmetric]) simp
    finally show ?thesis by (simp only: e)
  qed
  moreover have "(2::rat) powi m \<le> 2 powi k" using km by (rule power_int_increasing) simp
  ultimately show ?thesis by simp
qed

lemma float64_below:
  assumes "x \<le> 11529215046068469 / 2 ^ 60"
  shows "float64 x < normalErrRate"
proof -
  consider "x \<le> 0" | "0 < x" "x < 2 powi (- 7)" | "2 powi (- 7) \<le> x" by linarith
  then show ?thesis
  proof cases
    case 1
    then show ?thesis by (simp add: float64_def normalErrRate_eq)
  next
    case 2
    then have "float64 x \<le> 2 powi (- 7)" by (rule float64_le_pow)
    then show ?thesis by (simp add: normalErrRate_eq power_int_minus)
  next
    case 3
    from assms have "x < 2 powi (- 7 + 1)" by (simp add: power_int_minus)
    with 3 have "float64 x = of_int (round_half_even (x / 2 powi (- 7 - 52))) * 2 powi (- 7 - 52)"
      by (rule float64_eq)
    then have f: "float64 x = of_int (round_half_even (x * 2 ^ 59)) / 2 ^ 59"
      by (simp add: power_int_minus field_simps)
    from assms have "x * 2 ^ 59 \<le> of_int 5764607523034234 + 1 / 2" by simp
    then have "round_half_even (x * 2 ^ 59) \<le> 5764607523034234" by (rule rhe_le) simp
    then have "(of_int (round_half_even (x * 2 ^ 59)) :: rat) \<le> of_int 5764607523034234"
      by (simp only: of_int_le_iff)
    then show ?thesis by (simp add: f normalErrRate_eq divide_simps)
  qed
qed

lemma float64_above:
  assumes "1 / 100 \<le> x"
  shows "normalErrRate \<le> float64 x"
proof (cases "x < 2 powi (- 7 + 1)")
  case True
  from assms have "2 powi (- 7) \<le> x" by (simp add: power_int_minus)
  from this True have "float64 x = of_int (round_half_even (x / 2 powi (- 7 - 52))) * 2 powi (- 7 - 52)"
    by (rule float64_eq)
  then have f: "float64 x = of_int (round_half_even (x * 2 ^ 59)) / 2 ^ 59"
    by (simp add: power_int_minus field_simps)
  from assms have "of_int 5764607523034235 - 1 / 2 < x * 2 ^ 59" by simp
  then have "5764607523034235 \<le> round_half_even (x * 2 ^ 59)" by (rule rhe_ge)
  then have "(of_int 5764607523034235 :: rat) \<le> of_int (round_half_even (x * 2 ^ 59))"
    by (simp only: of_int_le_iff)
  then show ?thesis by (simp add: f normalErrRate_eq divide_simps)
next
  case False
  then have "2 powi (- 6) \<le> x" by simp
  then have "2 powi (- 6) \<le> float64 x" by (rule float64_ge_pow)
  then show ?thesis by (simp add: normalErrRate_eq power_int_minus)
qed

lemma errRate_exact:
  assumes "errs < 2 ^ 53" and "procd < 2 ^ 53"
  shows "errRate errs procd = float64 (of_nat errs / of_nat procd)"
  using assms by (simp add: errRate_def float64_of_nat)

lemma errRate_threshold:
  assumes "0 < procd" and "errs < 2 ^ 53" and "procd < 2 ^ 53"
  shows "errRate errs procd < normalErrRate \<longleftrightarrow> 100 * errs < procd"
proof
  assume "100 * errs < procd"
  with assms(3) have "errs * 1152921504606846976 \<le> 11529215046068469 * procd" by simp
  then have "(of_nat (errs * 1152921504606846976) :: rat) \<le> of_nat (11529215046068469 * procd)"
    by (simp only: of_nat_le_iff)
  with assms(1) have "(of_nat errs :: rat) / of_nat procd \<le> 11529215046068469 / 2 ^ 60"
    by (simp add: divide_simps)
  then show "errRate errs procd < normalErrRate"
    unfolding errRate_exact [OF assms(2,3)] by (rule float64_below)
next
  assume lt: "errRate errs procd < normalErrRate"
  show "100 * errs < procd"
  proof (rule ccontr)
    assume "\<not> 100 * errs < procd"
    then have "procd \<le> 100 * errs" by simp
    then have "(of_nat procd :: rat) \<le> of_nat (100 * errs)" by (simp only: of_nat_le_iff)
    with assms(1) have "1 / 100 \<le> (of_nat errs :: rat) / of_nat procd"
      by (simp add: divide_simps)
    then have "normalErrRate \<le> errRate errs procd"
      unfolding errRate_exact [OF assms(2,3)] by (rule float64_above)
    with lt show False by simp
  qed
qed


section \<open>Steps of the file processor\<close>

text \<open>
  Claim C10.  When the next line is empty after trimming, the step of the scanning loop
  only takes the line from the scanner: the program counter stays at the head of the loop,
  no parse is made (nothing is logged), no writer is started, and the counters, the wait
  group, the semaphore and the channel are as before.
\<close>

theorem blank_line_is_skipped:
  assumes "mpc s = M_Scan" and "scanner s = l # rest" and "TrimSpace l = []"
  shows "step env Main s = Some (s\<lparr>scanner := rest\<rparr>)"
  using assms by (simp add: main_step_def)

theorem blank_line_is_skipped_witness:
  "step example_env Main scanning_state = Some (scanning_state\<lparr>scanner := [good_line]\<rparr>)"
  using blank_line_is_skipped [of scanning_state "[CHR 0x20, TAB, CHR 0x20]" "[good_line]" example_env]
  by (simp add: scanning_state_def main_start_def trim_eval)


lemma bad_eval: "TrimSpace bad_line = bad_line" "bad_line \<noteq> []"
  "parseAppsInstalled pf bad_line = ([], Inl MalformedLine)"
  by (simp_all add: bad_line_def trim_eval parseAppsInstalled_def)

lemma file_ab: "file_a \<noteq> file_b" "file_b \<noteq> file_a"
  by (simp_all add: file_a_def file_b_def)


text \<open>
  Claim C1.  A schedule of the file with one valid line in which the counting goroutine
  does not run between the write and the end of the sleep.  The writer succeeds and sends
  its result; the main goroutine waits for the wait group, closes the channel, sleeps, reads
  \<open>processed = 0\<close>, renames the file and returns to the loop of \<^verbatim>\<open>main\<close>.  The result
  is still in the channel: the file was finalized with one of its outcomes not observed.
\<close>

theorem result_not_counted_after_sleep:
  "run example_env
     [Main, Main, Main, Main, Main, Main,
      Worker 0 True, Worker 0 True, Worker 0 True, Worker 0 True, Worker 0 True,
      Main, Main, Main, Main, Main, Main, Main]
     (main_start default_config one_line_fs [file_a]) =
   Some \<lparr>mpc = M_Loop, files = [], filename = file_a, scanner = [], scanner_err = False,
         processed = 0, errors = 0, resultChan = [True], closed = True, wg = 0,
         semaphore = 0, semaphore_cap = 100, cpc = C_Recv,
         workers = [\<lparr>wpc = W_Exit, wclient = \<lparr>addr = ''127.0.0.1:33013''\<rparr>,
                     wapps = \<lparr>DevType = ''idfa'', DevID = ''ID1'', Lat = 1111 / 20,
                              Lon = 2121 / 50, Apps = [1, 2, 3]\<rparr>\<rparr>],
         fs = [file_a\<lparr>base := ''.a.tsv.gz''\<rparr> \<mapsto>
                 \<lparr>mtime = 1, locked = False, content = Gzip [good_line] False\<rparr>],
         logs = [LogStarted ''/data/appsinstalled/*.tsv.gz'' False, LogProcessingFile file_a]\<rparr>"
  by (simp add: run_eval default_config_def file_a_def)

lemma rate_log_threshold:
  assumes "0 < procd" and "errs < 2 ^ 53" and "procd < 2 ^ 53"
  shows "rate_log errs procd =
           (if 100 * errs < procd
            then LogAcceptable (float64 (of_nat errs / of_nat procd))
            else LogHighErrorRate (float64 (of_nat errs / of_nat procd)))"
  using errRate_threshold [OF assms] errRate_exact [OF assms(2,3)]
  by (simp add: rate_log_def)

text \<open>
  Claim C4.  When \<open>processed\<close> is not 0 at line 223, the main goroutine reads the two
  counters, computes the rate in \<^verbatim>\<open>float64\<close> and logs one line.  For counters below
  \<open>2\<^sup>5\<^sup>3\<close> both conversions are exact, the rate is the rounded quotient
  \<open>errors / processed\<close>, and the comparison with the rounded constant 0.01 comes out as the
  comparison of the exact quotient with \<open>1 / 100\<close>: the load is logged as successful when
  \<open>100 * errors < processed\<close> and as failed otherwise, also when the rate is exactly 0.01.
\<close>

theorem error_rate_evaluation:
  assumes "mpc s = M_CheckZero" and "0 < processed s"
    and "errors s < 2 ^ 53" and "processed s < 2 ^ 53"
  shows "run env [Main, Main, Main, Main] s =
           Some (s\<lparr>mpc := M_Rename,
                   logs := logs s @
                     [if 100 * errors s < processed s
                      then LogAcceptable (float64 (of_nat (errors s) / of_nat (processed s)))
                      else LogHighErrorRate (float64 (of_nat (errors s) / of_nat (processed s)))]\<rparr>)"
  using assms by (simp add: main_step_def rate_log_threshold)

lemma float64_hundredth: "float64 (1 / 100) = 5764607523034235 / 2 ^ 59"
  using normalErrRate_eq by (simp add: normalErrRate_def)

lemma float64_zero: "float64 0 = 0"
  by (simp add: float64_def)

theorem error_rate_evaluation_witness:
  "run example_env [Main, Main, Main, Main]
       (scanning_state\<lparr>mpc := M_CheckZero, processed := 100, errors := 1\<rparr>) =
     Some (scanning_state\<lparr>mpc := M_Rename, processed := 100, errors := 1,
             logs := logs scanning_state @ [LogHighErrorRate (5764607523034235 / 2 ^ 59)]\<rparr>) \<and>
   run example_env [Main, Main, Main, Main]
       (scanning_state\<lparr>mpc := M_CheckZero, processed := 100, errors := 0\<rparr>) =
     Some (scanning_state\<lparr>mpc := M_Rename, processed := 100, errors := 0,
             logs := logs scanning_state @ [LogAcceptable 0]\<rparr>)"
  using error_rate_evaluation [of "scanning_state\<lparr>mpc := M_CheckZero, processed := 100, errors := 1\<rparr>" example_env]
    error_rate_evaluation [of "scanning_state\<lparr>mpc := M_CheckZero, processed := 100, errors := 0\<rparr>" example_env]
  by (simp add: float64_hundredth float64_zero)

text \<open>
  Claim C5.  When \<open>processed\<close> is 0 at line 223, whatever \<open>errors\<close> holds, the next two
  steps of the main goroutine call \<^verbatim>\<open>dotRename\<close> and return to the loop over the files:
  no rate is computed and nothing is logged, and the file, if it exists and can be renamed,
  has got its leading dot.
\<close>

theorem zero_processed_is_marked:
  assumes "mpc s = M_CheckZero" and "processed s = 0"
  shows "run env [Main, Main] s =
           Some (s\<lparr>mpc := M_Loop,
                   fs := (case fs s (filename s) of
                            None \<Rightarrow> fs s
                          | Some f \<Rightarrow>
                              if locked f then fs s
                              else (fs s)(filename s := None,
                                     (filename s)\<lparr>base := CHR ''.'' # base (filename s)\<rparr> \<mapsto> f))\<rparr>)"
  using assms
  by (auto simp: main_step_def dotRename_def os_Rename_def split: option.splits)

theorem zero_processed_is_marked_witness:
  "run example_env [Main, Main] (scanning_state\<lparr>mpc := M_CheckZero, processed := 0, errors := 5\<rparr>) =
     Some (scanning_state\<lparr>mpc := M_Loop, processed := 0, errors := 5,
             fs := [file_a\<lparr>base := ''.a.tsv.gz''\<rparr> \<mapsto>
                      \<lparr>mtime = 1, locked = False, content = Gzip [good_line] False\<rparr>]\<rparr>)"
  using zero_processed_is_marked [of "scanning_state\<lparr>mpc := M_CheckZero, processed := 0, errors := 5\<rparr>" example_env]
  by (simp add: scanning_state_def main_start_def one_line_fs_def file_a_def)

text \<open>
  Claim C2.  A schedule of the file with a valid line and a line that does not parse.  The
  write of the first record fails; the counting goroutine receives the result and loads
  \<open>errors\<close> (line 173) while the main goroutine, which has found the second line
  malformed, loads and stores \<open>errors\<close> (line 186); then the counting goroutine stores.
  Both goroutines have counted a failure, every result has been received, and \<open>errors\<close>
  ends as 1.
\<close>

theorem concurrent_increments_lose_an_error:
  "run example_env
     [Main, Main, Main, Main, Main, Main,
      Worker 0 False, Worker 0 False, Counter, Counter, Main, Main, Main, Counter,
      Worker 0 False, Worker 0 False, Worker 0 False, Main, Main, Main, Counter,
      Main, Main, Main, Main]
     (main_start default_config two_line_fs [file_a]) =
   Some \<lparr>mpc = M_Loop, files = [], filename = file_a, scanner = [], scanner_err = False,
         processed = 0, errors = 1, resultChan = [], closed = True, wg = 0,
         semaphore = 0, semaphore_cap = 100, cpc = C_Exit,
         workers = [\<lparr>wpc = W_Exit, wclient = \<lparr>addr = ''127.0.0.1:33013''\<rparr>,
                     wapps = \<lparr>DevType = ''idfa'', DevID = ''ID1'', Lat = 1111 / 20,
                              Lon = 2121 / 50, Apps = [1, 2, 3]\<rparr>\<rparr>],
         fs = [file_a\<lparr>base := ''.a.tsv.gz''\<rparr> \<mapsto>
                 \<lparr>mtime = 1, locked = False, content = Gzip [good_line, bad_line] False\<rparr>],
         logs = [LogStarted ''/data/appsinstalled/*.tsv.gz'' False, LogProcessingFile file_a,
                 LogInsertError (BackendWriteError ''127.0.0.1:33013'')]\<rparr>"
  by (simp add: run_eval two_line_fs_def bad_eval default_config_def file_a_def)

text \<open>
  Claim C9, as amended.  When \<^verbatim>\<open>dotRename\<close> fails, the step changes neither the file
  system nor the log (the error is dropped, lines 224 and 235), and the next step of the
  main goroutine takes the next file, or ends the program when there is none.
\<close>

theorem rename_failure_is_ignored:
  assumes "mpc s = M_Rename" and "dotRename (fs s) (filename s) = Inl e"
  shows "run env [Main, Main] s =
           Some (case files s of
                   [] \<Rightarrow> s\<lparr>mpc := M_Finished, logs := logs s @ [LogFinished]\<rparr>
                 | f # rest \<Rightarrow> s\<lparr>mpc := M_Open, files := rest, filename := f\<rparr>)"
  using assms by (simp add: main_step_def split: list.splits)

lemma rate_log_0_1: "rate_log 0 (Suc 0) = LogAcceptable 0"
  using rate_log_threshold [of "Suc 0" 0] by (simp add: float64_zero)

lemma sort_ba:
  "sort_outer 0 [\<lparr>path = file_b, modTime = 2\<rparr>, \<lparr>path = file_a, modTime = 1\<rparr>] =
     [\<lparr>path = file_a, modTime = 1\<rparr>, \<lparr>path = file_b, modTime = 2\<rparr>]"
  by (simp add: sort_outer.simps sort_inner.simps)

lemma dot_b: "file_b\<lparr>base := CHR ''.'' # base file_b\<rparr> = file_b\<lparr>base := ''.b.tsv.gz''\<rparr>"
  by (simp add: file_b_def)

text \<open>
  Claim C9, as stated, fails where it says that the failure is logged.  The first file cannot
  be renamed: \<^verbatim>\<open>dotRename\<close> returns an error, and the run below, which processes both
  files to the end of the program, writes no line about it; the first file keeps its name
  and the second file is processed and renamed.
\<close>

theorem rename_failure_is_not_logged:
  "dotRename locked_fs file_a = Inl RenameError \<and>
   run example_env
     [Main, Main, Main, Main, Main, Main,
      Worker 0 True, Worker 0 True, Worker 0 True, Counter, Counter, Counter,
      Worker 0 True, Worker 0 True,
      Main, Main, Main, Counter, Main, Main, Main, Main, Main, Main, Main,
      Main, Main, Main, Main, Main, Main, Main, Main, Main, Main]
     (main_start default_config locked_fs [file_b, file_a]) =
   Some \<lparr>mpc = M_Finished, files = [], filename = file_b, scanner = [], scanner_err = False,
         processed = 0, errors = 0, resultChan = [], closed = True, wg = 0,
         semaphore = 0, semaphore_cap = 100, cpc = C_Recv,
         workers = [\<lparr>wpc = W_Exit, wclient = \<lparr>addr = ''127.0.0.1:33013''\<rparr>,
                     wapps = \<lparr>DevType = ''idfa'', DevID = ''ID1'', Lat = 1111 / 20,
                              Lon = 2121 / 50, Apps = [1, 2, 3]\<rparr>\<rparr>],
         fs = [file_a \<mapsto> \<lparr>mtime = 1, locked = True, content = Gzip [good_line] False\<rparr>,
               file_b\<lparr>base := ''.b.tsv.gz''\<rparr> \<mapsto>
                 \<lparr>mtime = 2, locked = False, content = Gzip [] False\<rparr>],
         logs = [LogStarted ''/data/appsinstalled/*.tsv.gz'' False, LogProcessingFile file_a,
                 LogAcceptable 0, LogProcessingFile file_b, LogFinished]\<rparr>"
  by (simp add: main_start_def main_step_def worker_step_def counter_step_def
      trim_good good_ne parse_good dev_idfa env_sel insertAppsInstalled_def dotRename_def
      os_Rename_def locked_fs_def file_ab sort_ba rate_log_0_1 default_config_def dot_b)

theorem rename_failure_is_ignored_witness:
  "run example_env [Main, Main]
     (scanning_state\<lparr>mpc := M_Rename, files := [file_b], fs := locked_fs\<rparr>) =
   Some (scanning_state\<lparr>mpc := M_Open, files := [], filename := file_b, fs := locked_fs\<rparr>)"
  using rename_failure_is_ignored
    [of "scanning_state\<lparr>mpc := M_Rename, files := [file_b], fs := locked_fs\<rparr>" RenameError example_env]
  by (simp add: scanning_state_def main_start_def dotRename_def os_Rename_def locked_fs_def file_ab)

section \<open>The sort of \<^verbatim>\<open>main\<close> orders the files by modification time\<close>

text \<open>
  The inner loop keeps the elements, leaves the part before \<open>i\<close> alone and brings a
  smallest element of the rest to position \<open>i\<close>; the outer loop therefore returns a
  permutation that ascends.
\<close>

lemma swap_mset:
  assumes "i < length xs" and "j < length xs"
  shows "mset (xs[i := xs ! j, j := xs ! i]) = mset xs"
  using mset_swap [OF assms(2) assms(1)] by simp

lemma sort_inner_mset: "i < j \<Longrightarrow> mset (sort_inner i j xs) = mset xs"
proof (induction i j xs rule: sort_inner.induct)
  case (1 i j xs)
  show ?case
  proof (cases "j < length xs")
    case True
    with "1.prems" have "i < length xs" by simp
    with True "1.IH" "1.prems" show ?thesis
      by (subst sort_inner.simps) (simp add: swap_mset)
  next
    case False
    then show ?thesis by (subst sort_inner.simps) simp
  qed
qed

lemma sort_inner_take: "i < j \<Longrightarrow> take i (sort_inner i j xs) = take i xs"
proof (induction i j xs rule: sort_inner.induct)
  case (1 i j xs)
  show ?case
  proof (cases "j < length xs")
    case True
    with "1.IH" "1.prems" show ?thesis
      by (subst sort_inner.simps) simp
  next
    case False
    then show ?thesis by (subst sort_inner.simps) simp
  qed
qed

lemma sort_inner_min:
  assumes "i < j" and "\<forall>k. i < k \<and> k < j \<and> k < length xs \<longrightarrow> modTime (xs ! i) \<le> modTime (xs ! k)"
  shows "\<forall>k. i < k \<and> k < length xs \<longrightarrow>
           modTime (sort_inner i j xs ! i) \<le> modTime (sort_inner i j xs ! k)"
  using assms
proof (induction i j xs rule: sort_inner.induct)
  case (1 i j xs)
  show ?case
  proof (cases "j < length xs")
    case True
    let ?ys = "if modTime (xs ! j) < modTime (xs ! i) then xs[i := xs ! j, j := xs ! i] else xs"
    have len: "length ?ys = length xs" by simp
    from True "1.prems" have il: "i < length xs" by simp
    have inv: "\<forall>k. i < k \<and> k < j + 1 \<and> k < length ?ys \<longrightarrow> modTime (?ys ! i) \<le> modTime (?ys ! k)"
    proof (intro allI impI)
      fix k assume k: "i < k \<and> k < j + 1 \<and> k < length ?ys"
      show "modTime (?ys ! i) \<le> modTime (?ys ! k)"
      proof (cases "k = j")
        case True
        with k il "1.prems"(1) show ?thesis by (auto simp: nth_list_update)
      next
        case False
        with k have kj: "k < j" by simp
        from k have kl: "k < length xs" by (simp split: if_splits)
        from k kj kl "1.prems"(2) have "modTime (xs ! i) \<le> modTime (xs ! k)" by blast
        with k kj il True "1.prems"(1) show ?thesis by (auto simp: nth_list_update)
      qed
    qed
    from "1.prems"(1) have ij: "i < j + 1" by simp
    from "1.IH" [OF True ij inv] True show ?thesis
      by (subst (1 2) sort_inner.simps) (simp del: length_list_update add: len)
  next
    case False
    with "1.prems" show ?thesis by (subst (1 2) sort_inner.simps) auto
  qed
qed

lemma sort_outer_mset: "mset (sort_outer i xs) = mset xs"
proof (induction i xs rule: sort_outer.induct)
  case (1 i xs)
  show ?case
  proof (cases "i < length xs")
    case True
    with "1.IH" show ?thesis
      by (subst sort_outer.simps) (simp add: sort_inner_mset)
  next
    case False
    then show ?thesis by (subst sort_outer.simps) simp
  qed
qed

lemma sort_outer_sorted:
  assumes "sorted (map modTime (take i xs))"
    and "\<forall>x\<in>set (take i xs). \<forall>y\<in>set (drop i xs). modTime x \<le> modTime y"
  shows "sorted (map modTime (sort_outer i xs))"
  using assms
proof (induction i xs rule: sort_outer.induct)
  case (1 i xs)
  show ?case
  proof (cases "i < length xs")
    case True
    let ?ys = "sort_inner i (Suc i) xs"
    have len: "length ?ys = length xs" by (rule length_sort_inner)
    have tk: "take i ?ys = take i xs" by (simp add: sort_inner_take)
    have ms: "mset ?ys = mset xs" by (simp add: sort_inner_mset)
    have "mset (take i ?ys) + mset (drop i ?ys) = mset (take i xs) + mset (drop i xs)"
      using ms by (simp only: union_code append_take_drop_id)
    with tk have "mset (drop i ?ys) = mset (drop i xs)" by simp
    then have dr: "set (drop i ?ys) = set (drop i xs)" by (rule mset_eq_setD)
    have mn: "\<forall>k. i < k \<and> k < length xs \<longrightarrow> modTime (?ys ! i) \<le> modTime (?ys ! k)"
      by (rule sort_inner_min) simp_all
    from True len have il: "i < length ?ys" by simp
    have tks: "take (Suc i) ?ys = take i ?ys @ [?ys ! i]"
      using il by (simp add: take_Suc_conv_app_nth)
    have "?ys ! i \<in> set (drop i ?ys)"
      using il by (metis Cons_nth_drop_Suc list.set_intros(1))
    with dr have yi: "?ys ! i \<in> set (drop i xs)" by simp
    have s1: "sorted (map modTime (take (Suc i) ?ys))"
      using "1.prems" yi by (simp add: tks tk sorted_append del: length_list_update)
    have s2: "\<forall>x\<in>set (take (Suc i) ?ys). \<forall>y\<in>set (drop (Suc i) ?ys). modTime x \<le> modTime y"
    proof (intro ballI)
      fix x y assume x: "x \<in> set (take (Suc i) ?ys)" and y: "y \<in> set (drop (Suc i) ?ys)"
      from y obtain m where m: "m < length ?ys - Suc i" "y = ?ys ! (Suc i + m)"
        by (auto simp: in_set_conv_nth)
      then have k: "i < Suc i + m" "Suc i + m < length xs" by (simp_all add: len)
      have "set (drop (Suc i) ?ys) \<subseteq> set (drop i ?ys)"
        by (rule set_drop_subset_set_drop) simp
      with y dr have yd: "y \<in> set (drop i xs)" by blast
      from x have "x \<in> set (take i xs) \<or> x = ?ys ! i" by (auto simp: tks tk)
      then show "modTime x \<le> modTime y"
      proof
        assume "x \<in> set (take i xs)"
        with yd "1.prems"(2) show ?thesis by blast
      next
        assume "x = ?ys ! i"
        with k m(2) mn show ?thesis by blast
      qed
    qed
    from "1.IH" True s1 s2 show ?thesis
      by (subst sort_outer.simps) simp
  next
    case False
    with "1.prems" show ?thesis by (subst sort_outer.simps) simp
  qed
qed

lemma sort_outer_0_sorted: "sorted (map modTime (sort_outer 0 xs))"
  by (rule sort_outer_sorted) simp_all

section \<open>The files are entered one after the other\<close>

lemma opened_append: "opened (xs @ ys) = opened xs @ opened ys"
  by (induction xs rule: opened.induct) simp_all

lemma opened_parse_apps: "opened (fst (parse_apps line ts)) = []"
  by (induction ts) (auto simp: Let_def split: prod.splits option.splits)

lemma opened_parse: "opened (fst (parseAppsInstalled pf line)) = []"
proof (cases "parse_apps line (Split (Split (TrimSpace line) TAB ! 4) CHR '','') :: 'a log_entry list \<times> 32 word list")
  case (Pair lg apps)
  with opened_parse_apps [of line "Split (Split (TrimSpace line) TAB ! 4) CHR '',''", where ?'a = 'a]
  have "opened lg = []" by simp
  with Pair show ?thesis
    by (simp add: parseAppsInstalled_def Let_def split: option.splits)
qed

lemma opened_insert: "opened (fst (insertAppsInstalled m ok c a d)) = []"
  by (simp add: insertAppsInstalled_def Let_def split: option.splits)

lemma opened_stat: "opened (fst (stat_files fs0 gl)) = []"
  by (induction gl) (auto simp: Let_def split: prod.splits option.splits)

lemma opened_rate: "opened [rate_log e p] = []"
  by (simp add: rate_log_def)

lemma live_update:
  assumes "i < length (workers s)"
  shows "live (s\<lparr>workers := (workers s)[i := w]\<rparr>) + (if wpc (workers s ! i) \<noteq> W_Exit then 1 else 0) =
         live s + (if wpc w \<noteq> W_Exit then 1 else 0)"
  using filter_update_count [OF assms, of "\<lambda>w. wpc w \<noteq> W_Exit" w]
  by (simp add: live_def)

lemma opened_parse_pair: "parseAppsInstalled pf line = (lg, r) \<Longrightarrow> opened lg = []"
  using opened_parse [of pf line] by simp

lemma opened_insert_pair: "insertAppsInstalled m ok c a d = (lg, r) \<Longrightarrow> opened lg = []"
  using opened_insert [of m ok c a d] by simp

lemma main_step_seq:
  assumes "main_step env s = Some s'" and "seq_inv order s"
  shows "seq_inv order s'"
  using assms
  by (cases "mpc s")
     (auto simp: main_step_def seq_inv_def live_def opened_append opened_rate
       dest: opened_parse_pair
       split: list.splits if_splits prod.splits sum.splits option.splits
         content.splits err_site.splits)

lemma counter_step_seq:
  assumes "counter_step s = Some s'" and "seq_inv order s"
  shows "seq_inv order s'"
  using assms
  by (cases "cpc s")
     (auto simp: counter_step_def seq_inv_def live_def split: list.splits if_splits)

lemma worker_step_seq:
  assumes "worker_step env i ok s = Some s'" and "seq_inv order s"
  shows "seq_inv order s'"
proof -
  from assms(1) have len: "i < length (workers s)"
    by (auto simp: worker_step_def split: if_splits)
  note upd = live_update [OF len]
  show ?thesis
  proof (cases "wpc (workers s ! i)")
    case W_Insert
    with assms len upd [of "(workers s ! i)\<lparr>wpc := W_Send (snd (insertAppsInstalled (Marshal env) ok (wclient (workers s ! i)) (wapps (workers s ! i)) (dry env)))\<rparr>"]
    show ?thesis
      by (auto simp: worker_step_def seq_inv_def live_def Let_def opened_append
          dest: opened_insert_pair split: prod.splits)
  next
    case (W_Send err)
    with assms len upd [of "(workers s ! i)\<lparr>wpc := W_LogErr err\<rparr>"]
    show ?thesis
      by (auto simp: worker_step_def seq_inv_def live_def Let_def split: if_splits)
  next
    case (W_LogErr err)
    with assms len upd [of "(workers s ! i)\<lparr>wpc := W_Release\<rparr>"]
    show ?thesis
      by (auto simp: worker_step_def seq_inv_def live_def Let_def opened_append
          split: option.splits)
  next
    case W_Release
    with assms len upd [of "(workers s ! i)\<lparr>wpc := W_Done\<rparr>"]
    show ?thesis
      by (auto simp: worker_step_def seq_inv_def live_def Let_def split: if_splits)
  next
    case W_Done
    with assms len upd [of "(workers s ! i)\<lparr>wpc := W_Exit\<rparr>"]
    show ?thesis
      by (auto simp: worker_step_def seq_inv_def live_def Let_def split: if_splits)
  next
    case W_Exit
    with assms len show ?thesis
      by (auto simp: worker_step_def Let_def)
  qed
qed

lemma step_seq:
  assumes "step env l s = Some s'" and "seq_inv order s"
  shows "seq_inv order s'"
  using assms
  by (cases l) (auto dest: main_step_seq counter_step_seq worker_step_seq)

lemma run_seq:
  assumes "run env sched s = Some s'" and "seq_inv order s"
  shows "seq_inv order s'"
  using assms
proof (induction sched arbitrary: s)
  case Nil
  then show ?case by simp
next
  case (Cons l ls)
  from Cons.prems(1) obtain s1 where s1: "step env l s = Some s1" and rest: "run env ls s1 = Some s'"
    by (auto split: option.splits)
  from step_seq [OF s1 Cons.prems(2)] Cons.IH [OF rest] show ?case by simp
qed

lemma main_start_seq:
  "seq_inv (map path (sort_outer 0 (snd (stat_files fs0 globbed :: 'f log_entry list \<times> fileInfo list))))
     (main_start config fs0 globbed :: 'f state)"
  by (simp add: seq_inv_def main_start_def live_def opened_stat)

lemma stat_files_infos:
  "snd (stat_files fs0 globbed) =
     List.map_filter (\<lambda>f. map_option (\<lambda>fl. \<lparr>path = f, modTime = mtime fl\<rparr>) (fs0 f)) globbed"
  by (induction globbed) (auto simp: List.map_filter_simps Let_def split: prod.splits option.splits)

lemma sort_three:
  "sort_outer 0 (snd (stat_files three_fs [file_a, file_b, file_c])) =
     [\<lparr>path = file_c, modTime = 1\<rparr>, \<lparr>path = file_a, modTime = 2\<rparr>, \<lparr>path = file_b, modTime = 3\<rparr>]"
  by (simp add: three_fs_def file_a_def file_b_def file_c_def sort_outer.simps sort_inner.simps)

lemma sort_ties:
  "sort_outer 0 (snd (stat_files ties_fs [file_a, file_b, file_c])) =
     [\<lparr>path = file_c, modTime = 1\<rparr>, \<lparr>path = file_b, modTime = 2\<rparr>, \<lparr>path = file_a, modTime = 2\<rparr>]"
  by (simp add: ties_fs_def file_a_def file_b_def file_c_def sort_outer.simps sort_inner.simps)

lemma stable_ties:
  "sort_key modTime (snd (stat_files ties_fs [file_a, file_b, file_c])) =
     [\<lparr>path = file_c, modTime = 1\<rparr>, \<lparr>path = file_a, modTime = 2\<rparr>, \<lparr>path = file_b, modTime = 2\<rparr>]"
  by (simp add: ties_fs_def file_a_def file_b_def file_c_def)

lemma run_three:
  "\<exists>s. run example_env
     [Main, Main, Main, Main, Main, Main, Main, Main, Main,
      Main, Main, Main, Main, Main, Main, Main, Main, Main,
      Main, Main, Main, Main, Main, Main, Main, Main, Main, Main]
     (main_start default_config three_fs [file_a, file_b, file_c]) = Some s \<and> mpc s = M_Finished"
  unfolding main_start_def sort_three
  by (simp add: main_step_def dotRename_def os_Rename_def
     three_fs_def file_a_def file_b_def file_c_def)

text \<open>
  Claim C8, as amended.  Of the files found, those whose modification time can be read are
  kept (the others are logged and left out, lines 344 to 348) and sorted: the sorted list is a
  permutation of them and ascends in modification time.  In every state that any schedule
  reaches from the start of \<^verbatim>\<open>main\<close>, the files on which \<^verbatim>\<open>processFile\<close> has been
  called, the file the loop has just taken and the files still to come are, in this order,
  the sorted list; when the program has finished, \<^verbatim>\<open>processFile\<close> has been called on all
  of them.  Whenever the main goroutine is outside lines 178 to 213, and so whenever it
  is between two files, every writer has returned.  Nothing is said about files with equal
  modification times beyond this: the sort may exchange them.
\<close>

theorem files_processed_in_time_order:
  fixes env :: "'f env"
  assumes "run env sched (main_start config fs0 globbed) = Some s"
    and "infos = snd (stat_files fs0 globbed :: 'f log_entry list \<times> fileInfo list)"
  shows "infos = List.map_filter (\<lambda>f. map_option (\<lambda>fl. \<lparr>path = f, modTime = mtime fl\<rparr>) (fs0 f)) globbed \<and>
         mset (sort_outer 0 infos) = mset infos \<and>
         sorted (map modTime (sort_outer 0 infos)) \<and>
         opened (logs s) @ (if mpc s = M_Open then [filename s] else []) @ files s =
           map path (sort_outer 0 infos) \<and>
         (mpc s = M_Finished \<longrightarrow> opened (logs s) = map path (sort_outer 0 infos)) \<and>
         (\<not> dispatching (mpc s) \<longrightarrow> live s = 0)"
proof -
  from run_seq [OF assms(1) main_start_seq] assms(2)
  have inv: "seq_inv (map path (sort_outer 0 infos)) s" by simp
  have "infos = List.map_filter (\<lambda>f. map_option (\<lambda>fl. \<lparr>path = f, modTime = mtime fl\<rparr>) (fs0 f)) globbed"
    unfolding assms(2) by (rule stat_files_infos)
  moreover have "mset (sort_outer 0 infos) = mset infos" by (rule sort_outer_mset)
  moreover have "sorted (map modTime (sort_outer 0 infos))" by (rule sort_outer_0_sorted)
  moreover from inv have "opened (logs s) @ (if mpc s = M_Open then [filename s] else []) @ files s =
           map path (sort_outer 0 infos)"
    by (simp add: seq_inv_def)
  moreover from inv have "mpc s = M_Finished \<longrightarrow> opened (logs s) = map path (sort_outer 0 infos)"
    by (auto simp: seq_inv_def)
  moreover from inv have "\<not> dispatching (mpc s) \<longrightarrow> live s = 0"
    by (auto simp: seq_inv_def)
  ultimately show ?thesis by blast
qed

text \<open>
  Files with the modification times T1 = 2, T2 = 3 and T3 = 1, found in the order T1, T2,
  T3: the run below processes all three to the end of the program, in the order T3, T1, T2.
\<close>

theorem files_processed_in_time_order_witness:
  "case run example_env
     [Main, Main, Main, Main, Main, Main, Main, Main, Main,
      Main, Main, Main, Main, Main, Main, Main, Main, Main,
      Main, Main, Main, Main, Main, Main, Main, Main, Main, Main]
     (main_start default_config three_fs [file_a, file_b, file_c]) of
     None \<Rightarrow> False
   | Some s \<Rightarrow> mpc s = M_Finished \<and> opened (logs s) = [file_c, file_a, file_b] \<and> live s = 0"
proof -
  obtain s where r: "run example_env
     [Main, Main, Main, Main, Main, Main, Main, Main, Main,
      Main, Main, Main, Main, Main, Main, Main, Main, Main,
      Main, Main, Main, Main, Main, Main, Main, Main, Main, Main]
     (main_start default_config three_fs [file_a, file_b, file_c]) = Some s"
    and fin: "mpc s = M_Finished"
    using run_three by blast
  note t = files_processed_in_time_order [OF r refl]
  from t have a: "mpc s = M_Finished \<longrightarrow>
      opened (logs s) =
        map path (sort_outer 0 (snd (stat_files three_fs [file_a, file_b, file_c] :: rat log_entry list \<times> fileInfo list)))"
    by blast
  from t have b: "\<not> dispatching (mpc s) \<longrightarrow> live s = 0"
    by blast
  from a fin have "opened (logs s) = [file_c, file_a, file_b]" by (simp only: sort_three) simp
  moreover from b fin have "live s = 0" by simp
  ultimately show ?thesis using r fin by simp
qed

text \<open>
  Claim C8, as stated, fails where it says that files with equal modification times keep
  their order.  The first two files found have the same modification time and the third is
  older: the first pass of the outer loop exchanges the first file with the third, which
  puts it behind the second.  The program processes the third, the second and the first; a
  stable sort gives the third, the first and the second.
\<close>

theorem equal_times_change_places:
  "(case run example_env
     [Main, Main, Main, Main, Main, Main, Main, Main, Main,
      Main, Main, Main, Main, Main, Main, Main, Main, Main,
      Main, Main, Main, Main, Main, Main, Main, Main, Main, Main]
     (main_start default_config ties_fs [file_a, file_b, file_c]) of
     None \<Rightarrow> False
   | Some s \<Rightarrow> mpc s = M_Finished \<and> opened (logs s) = [file_c, file_b, file_a]) \<and>
   map path (sort_key modTime (snd (stat_files ties_fs [file_a, file_b, file_c]))) =
     [file_c, file_a, file_b]"
proof
  show "case run example_env
     [Main, Main, Main, Main, Main, Main, Main, Main, Main,
      Main, Main, Main, Main, Main, Main, Main, Main, Main,
      Main, Main, Main, Main, Main, Main, Main, Main, Main, Main]
     (main_start default_config ties_fs [file_a, file_b, file_c]) of
     None \<Rightarrow> False
   | Some s \<Rightarrow> mpc s = M_Finished \<and> opened (logs s) = [file_c, file_b, file_a]"
    unfolding main_start_def sort_ties
    by (simp add: main_step_def dotRename_def os_Rename_def
       ties_fs_def file_a_def file_b_def file_c_def)
next
  show "map path (sort_key modTime (snd (stat_files ties_fs [file_a, file_b, file_c]))) =
     [file_c, file_a, file_b]"
    by (simp only: stable_ties) simp
qed

end
